theory Spec2Isabelle
  imports Complex_Main
begin

section \<open>Numbers and points\<close>

text \<open>
  The script \<^verbatim>\<open>round_dxf.py\<close> computes with Python floats. They are modelled as
  real numbers: \<^verbatim>\<open>math.sqrt\<close>, \<^verbatim>\<open>math.sin\<close>, \<^verbatim>\<open>math.cos\<close> are the real
  functions, \<^verbatim>\<open>math.atan2\<close> is written out below, and \<^verbatim>\<open>round(x, 3)\<close> is
  rounding to the nearest multiple of 1/1000 with ties to even. A point is a pair
  \<^verbatim>\<open>(p[0], p[1])\<close>.
\<close>

type_synonym point = "real \<times> real"

datatype py_error = IndexError | ZeroDivisionError

text \<open>\<^verbatim>\<open>def distance(p0, p1): return math.sqrt((p1[0] - p0[0])**2 + (p1[1] - p0[1])**2)\<close>\<close>

definition distance :: "point \<Rightarrow> point \<Rightarrow> real" where
  "distance p0 p1 = sqrt ((fst p1 - fst p0)\<^sup>2 + (snd p1 - snd p0)\<^sup>2)"

text \<open>\<^verbatim>\<open>math.atan2(y, x)\<close>: the polar angle of \<open>(x, y)\<close> in \<open>(-\<pi>, \<pi>]\<close>, and 0 at the origin.
  The reals have one zero, so the result \<open>-\<pi>\<close> that the floats give for \<open>y = -0.0\<close> and
  \<open>x < 0\<close> does not occur.\<close>

definition atan2 :: "real \<Rightarrow> real \<Rightarrow> real" where
  "atan2 y x =
     (if 0 < x then arctan (y / x)
      else if x < 0 then (if 0 \<le> y then arctan (y / x) + pi else arctan (y / x) - pi)
      else if 0 < y then pi / 2
      else if y < 0 then - (pi / 2)
      else 0)"

text \<open>\<^verbatim>\<open>math.degrees(x)\<close>\<close>

definition degrees :: "real \<Rightarrow> real" where
  "degrees x = x * 180 / pi"

text \<open>Python's \<^verbatim>\<open>round\<close>: to the nearest integer, a tie going to the even one.\<close>

definition py_round :: "real \<Rightarrow> int" where
  "py_round x =
     (let f = \<lfloor>x\<rfloor>; d = x - of_int f
      in if d < 1 / 2 then f
         else if 1 / 2 < d then f + 1
         else if even f then f
         else f + 1)"

text \<open>\<^verbatim>\<open>round(x, 3)\<close>\<close>

definition round3 :: "real \<Rightarrow> real" where
  "round3 x = of_int (py_round (x * 1000)) / 1000"

section \<open>The drawing\<close>

text \<open>
  An entity of the modelspace, as far as the script reads or writes it: its
  \<^verbatim>\<open>dxftype()\<close>, the attributes of \<^verbatim>\<open>e.dxf\<close> the script touches (absent ones are
  \<open>None\<close>, which is what \<^verbatim>\<open>hasattr\<close> tests), and the vertices \<^verbatim>\<open>get_points()\<close>
  returns for a polyline.
\<close>

record entity =
  dxftype :: string
  dxf_elevation :: "real option"
  dxf_start :: "(real \<times> real \<times> real) option"
  dxf_end :: "(real \<times> real \<times> real) option"
  dxf_center :: "(real \<times> real \<times> real) option"
  dxf_radius :: "real option"
  dxf_start_angle :: "real option"
  dxf_end_angle :: "real option"
  get_points :: "point list"

type_synonym modelspace = "entity list"

definition vec3 :: "point \<Rightarrow> real \<times> real \<times> real" where
  "vec3 p = (fst p, snd p, 0)"

definition arc_entity :: "point \<Rightarrow> real \<Rightarrow> real \<Rightarrow> real \<Rightarrow> entity" where
  "arc_entity c r sa ea =
     \<lparr>dxftype = ''ARC'', dxf_elevation = None, dxf_start = None, dxf_end = None,
      dxf_center = Some (vec3 c), dxf_radius = Some r,
      dxf_start_angle = Some sa, dxf_end_angle = Some ea, get_points = []\<rparr>"

definition line_entity :: "point \<Rightarrow> point \<Rightarrow> entity" where
  "line_entity a b =
     \<lparr>dxftype = ''LINE'', dxf_elevation = None, dxf_start = Some (vec3 a),
      dxf_end = Some (vec3 b), dxf_center = None, dxf_radius = None,
      dxf_start_angle = None, dxf_end_angle = None, get_points = []\<rparr>"

text \<open>\<^verbatim>\<open>modelspace.add_arc\<close>, \<^verbatim>\<open>modelspace.add_line\<close>, \<^verbatim>\<open>modelspace.delete_entity\<close>,
  \<^verbatim>\<open>modelspace.query\<close>: new entities go to the end of the modelspace.\<close>

definition add_arc :: "modelspace \<Rightarrow> point \<Rightarrow> real \<Rightarrow> real \<Rightarrow> real \<Rightarrow> modelspace" where
  "add_arc ms c r sa ea = ms @ [arc_entity c r sa ea]"

definition add_line :: "modelspace \<Rightarrow> point \<Rightarrow> point \<Rightarrow> modelspace" where
  "add_line ms a b = ms @ [line_entity a b]"

definition delete_entity :: "modelspace \<Rightarrow> entity \<Rightarrow> modelspace" where
  "delete_entity ms e = remove1 e ms"

definition query :: "string list \<Rightarrow> modelspace \<Rightarrow> entity list" where
  "query names ms = filter (\<lambda>e. dxftype e \<in> set names) ms"

section \<open>The fillet calculator\<close>

text \<open>Lines 25 to 29 of \<^verbatim>\<open>add_fillet\<close>: the difference of the two angles, brought back
  into \<open>[-\<pi>, \<pi>]\<close>.\<close>

definition norm_diff :: "real \<Rightarrow> real" where
  "norm_diff a_diff =
     (if a_diff < - pi then a_diff + 2 * pi
      else if pi < a_diff then a_diff - 2 * pi
      else a_diff)"

text \<open>Lines 31 to 38: \<open>(start_a, end_a)\<close>, the directions from the center to the two
  tangent points.\<close>

definition tangent_angles :: "real \<Rightarrow> real \<Rightarrow> real \<times> real" where
  "tangent_angles angle1 angle2 =
     (if 0 < norm_diff (angle2 - angle1)
      then (angle1 - pi / 2, angle2 + pi / 2)
      else (angle1 + pi / 2, angle2 - pi / 2))"

text \<open>Lines 31 to 38: \<open>(start_angle, end_angle)\<close> of the arc, in degrees, swapped in the
  first branch.\<close>

definition arc_angles :: "real \<Rightarrow> real \<Rightarrow> real \<times> real" where
  "arc_angles angle1 angle2 =
     (if 0 < norm_diff (angle2 - angle1)
      then (degrees (angle2 + pi / 2), degrees (angle1 - pi / 2))
      else (degrees (angle1 + pi / 2), degrees (angle2 - pi / 2)))"

text \<open>Lines 42 to 48: the two candidate centers on the bisector, at \<open>dist'\<close> (the
  script's \<^verbatim>\<open>dist\<close>) from \<open>p1\<close>, and the choice of the one nearer to the midpoint of
  \<open>p0\<close> and \<open>p2\<close>.\<close>

definition choose_center :: "point \<Rightarrow> point \<Rightarrow> point \<Rightarrow> real \<Rightarrow> real \<Rightarrow> point" where
  "choose_center p0 p1 p2 dist' bisect_angle =
     (let fillet_center = (fst p1 + dist' * cos bisect_angle, snd p1 + dist' * sin bisect_angle);
          fillet_center2 = (fst p1 - dist' * cos bisect_angle, snd p1 - dist' * sin bisect_angle);
          mid_point = ((fst p0 + fst p2) / 2, (snd p0 + snd p2) / 2)
      in if distance mid_point fillet_center2 < distance mid_point fillet_center
         then fillet_center2 else fillet_center)"

text \<open>
  \<^verbatim>\<open>add_fillet(modelspace, p0, p1, p2, radius)\<close>. The division of line 41 raises
  \<^verbatim>\<open>ZeroDivisionError\<close> when the sine is zero. The result is the modelspace with the arc
  added, and the two tangent points.
\<close>

definition add_fillet ::
  "modelspace \<Rightarrow> point \<Rightarrow> point \<Rightarrow> point \<Rightarrow> real \<Rightarrow> py_error + (modelspace \<times> point \<times> point)" where
  "add_fillet ms p0 p1 p2 radius =
     (let v1 = (fst p0 - fst p1, snd p0 - snd p1);
          v2 = (fst p2 - fst p1, snd p2 - snd p1);
          angle1 = atan2 (snd v1) (fst v1);
          angle2 = atan2 (snd v2) (fst v2);
          (start_a, end_a) = tangent_angles angle1 angle2;
          (start_angle, end_angle) = arc_angles angle1 angle2;
          bisect_angle = (angle1 + angle2) / 2;
          s = sin (\<bar>angle2 - angle1\<bar> / 2)
      in if s = 0 then Inl ZeroDivisionError
         else
           let dist' = radius / s;
               c = choose_center p0 p1 p2 dist' bisect_angle;
               fillet_center = (round3 (fst c), round3 (snd c))
           in Inr (add_arc ms fillet_center radius start_angle end_angle,
                   (round3 (fst fillet_center + radius * cos start_a),
                    round3 (snd fillet_center + radius * sin start_a)),
                   (round3 (fst fillet_center + radius * cos end_a),
                    round3 (snd fillet_center + radius * sin end_a))))"

section \<open>The sanitizer\<close>

text \<open>
  \<^verbatim>\<open>checks(modelspace)\<close>: the second loop sets the elevation and the third coordinate of
  \<^verbatim>\<open>start\<close> and \<^verbatim>\<open>end\<close> to 0 on every entity that has the attribute; the third
  deletes the entities \<^verbatim>\<open>query("POINT")\<close> returns. The warnings and the printed
  histogram do not change the drawing; the histogram is \<open>type_counts\<close>.
\<close>

definition flatten :: "entity \<Rightarrow> entity" where
  "flatten e =
     e\<lparr>dxf_elevation := (case dxf_elevation e of None \<Rightarrow> None | Some _ \<Rightarrow> Some 0),
       dxf_start := (case dxf_start e of None \<Rightarrow> None | Some (x, y, z) \<Rightarrow> Some (x, y, 0)),
       dxf_end := (case dxf_end e of None \<Rightarrow> None | Some (x, y, z) \<Rightarrow> Some (x, y, 0))\<rparr>"

definition unexpected :: "modelspace \<Rightarrow> string list" where
  "unexpected ms = map dxftype (filter (\<lambda>e. dxftype e \<notin> set [''LINE'', ''ARC'']) ms)"

definition checks :: "modelspace \<Rightarrow> modelspace" where
  "checks ms = (let ms1 = map flatten ms in foldl delete_entity ms1 (query [''POINT''] ms1))"

fun type_counts :: "modelspace \<Rightarrow> (string \<rightharpoonup> nat) \<Rightarrow> (string \<rightharpoonup> nat)" where
  "type_counts [] types = types"
| "type_counts (e # es) types =
     type_counts es (types(dxftype e \<mapsto> (case types (dxftype e) of None \<Rightarrow> 0 | Some c \<Rightarrow> c) + 1))"

section \<open>The contour rebuilder\<close>

text \<open>The variables of \<^verbatim>\<open>main\<close> that the loop over the vertices reads and writes.\<close>

record rebuild =
  space :: modelspace
  memory :: point
  first :: point
  nb_lines :: nat

text \<open>Lines 96 to 101: the radius used at a vertex.\<close>

definition fillet_radius :: "real \<Rightarrow> bool \<Rightarrow> point \<Rightarrow> point \<Rightarrow> point \<Rightarrow> real" where
  "fillet_radius radius skip p0 p1 p2 =
     (if distance p0 p1 > 2 * radius \<and> distance p1 p2 > 2 * radius then radius
      else if \<not> skip then min (distance p0 p1) (distance p1 p2) / 2
      else 0)"

text \<open>Lines 91 to 94: the triple at index \<open>i\<close>, each point rounded. \<^verbatim>\<open>points[i-1]\<close> is
  the last point when \<open>i = 0\<close>.\<close>

definition round_point :: "point \<Rightarrow> point" where
  "round_point p = (round3 (fst p), round3 (snd p))"

definition triple :: "point list \<Rightarrow> nat \<Rightarrow> point \<times> point \<times> point" where
  "triple points i =
     (round_point (if i = 0 then last points else points ! (i - 1)),
      round_point (points ! i),
      round_point (points ! ((i + 1) mod length points)))"

text \<open>Lines 102 to 110: the branch \<^verbatim>\<open>r != 0\<close>.\<close>

definition fillet_vertex ::
  "nat \<Rightarrow> point \<Rightarrow> point \<Rightarrow> point \<Rightarrow> real \<Rightarrow> rebuild \<Rightarrow> py_error + rebuild" where
  "fillet_vertex i p0 p1 p2 r st =
     (case add_fillet (space st) p0 p1 p2 r of
        Inl e \<Rightarrow> Inl e
      | Inr (ms, new_p) \<Rightarrow>
          Inr ((if i \<noteq> 0
                then (if distance (memory st) (fst new_p) \<noteq> 0
                      then st\<lparr>space := add_line ms (memory st) (fst new_p),
                              nb_lines := nb_lines st + 1\<rparr>
                      else st\<lparr>space := ms\<rparr>)
                else st\<lparr>space := ms, first := fst new_p\<rparr>)
               \<lparr>memory := snd new_p\<rparr>))"

text \<open>Lines 111 to 114: the branch \<^verbatim>\<open>r == 0\<close>.\<close>

definition pass_vertex :: "nat \<Rightarrow> point \<Rightarrow> rebuild \<Rightarrow> rebuild" where
  "pass_vertex i p1 st =
     (if i \<noteq> 0 then st\<lparr>space := add_line (space st) (memory st) p1\<rparr> else st)
     \<lparr>memory := p1\<rparr>"

text \<open>Lines 91 to 114: the body of the loop at index \<open>i\<close>.\<close>

definition vertex_step :: "real \<Rightarrow> bool \<Rightarrow> point list \<Rightarrow> nat \<Rightarrow> rebuild \<Rightarrow> py_error + rebuild" where
  "vertex_step radius skip points i st =
     (case triple points i of (p0, p1, p2) \<Rightarrow>
        let r = fillet_radius radius skip p0 p1 p2
        in if r \<noteq> 0 then fillet_vertex i p0 p1 p2 r st
           else Inr (pass_vertex i p1 st))"

text \<open>\<^verbatim>\<open>for i in range(len(points))\<close>: an exception ends the loop.\<close>

fun vertex_loop ::
  "real \<Rightarrow> bool \<Rightarrow> point list \<Rightarrow> nat list \<Rightarrow> rebuild \<Rightarrow> py_error + rebuild" where
  "vertex_loop radius skip points [] st = Inr st"
| "vertex_loop radius skip points (i # is) st =
     (case vertex_step radius skip points i st of
        Inl e \<Rightarrow> Inl e
      | Inr st' \<Rightarrow> vertex_loop radius skip points is st')"

text \<open>
  Lines 84 to 117: the body of the loop over the contours, for the vertex list
  \<open>points\<close>. Line 89 reads \<^verbatim>\<open>points[-1]\<close> with no test of the length, which raises
  \<^verbatim>\<open>IndexError\<close> on an empty list; \<open>first\<close> is assigned at line 87 before any use.
\<close>

definition rebuild_contour ::
  "real \<Rightarrow> bool \<Rightarrow> point list \<Rightarrow> modelspace \<times> nat \<Rightarrow> py_error + (modelspace \<times> nat)" where
  "rebuild_contour radius skip points s =
     (if points = [] then Inl IndexError
      else
        case vertex_loop radius skip points [0..<length points]
               \<lparr>space = fst s, memory = last points, first = hd points, nb_lines = snd s\<rparr> of
          Inl e \<Rightarrow> Inl e
        | Inr st \<Rightarrow>
            Inr (add_line (space st) (memory st) (first st), nb_lines st + 1))"

text \<open>Lines 83 to 118: every polyline of the query is rebuilt and then deleted. The
  query of line 83 selects the entities of type LWPOLYLINE or POLYLINE, once, before the
  loop.\<close>

fun contours_loop ::
  "real \<Rightarrow> bool \<Rightarrow> entity list \<Rightarrow> modelspace \<times> nat \<Rightarrow> py_error + (modelspace \<times> nat)" where
  "contours_loop radius skip [] s = Inr s"
| "contours_loop radius skip (e # es) s =
     (case rebuild_contour radius skip (get_points e) s of
        Inl err \<Rightarrow> Inl err
      | Inr (ms, n) \<Rightarrow> contours_loop radius skip es (delete_entity ms e, n))"

text \<open>
  \<^verbatim>\<open>main(dxf_file, output_file, radius, skip)\<close>, from the modelspace read to the
  modelspace saved, with the number of lines it prints.
\<close>

definition main :: "modelspace \<Rightarrow> real \<Rightarrow> bool \<Rightarrow> py_error + (modelspace \<times> nat)" where
  "main ms radius skip =
     (case contours_loop \<bar>radius\<bar> skip (query [''LWPOLYLINE'', ''POLYLINE''] ms) (ms, 0) of
        Inl err \<Rightarrow> Inl err
      | Inr (ms', n) \<Rightarrow> Inr (checks ms', n))"

text \<open>A polyline entity with the given vertices.\<close>

definition polyline :: "point list \<Rightarrow> entity" where
  "polyline ps =
     \<lparr>dxftype = ''LWPOLYLINE'', dxf_elevation = Some 0, dxf_start = None, dxf_end = None,
      dxf_center = None, dxf_radius = None, dxf_start_angle = None, dxf_end_angle = None,
      get_points = ps\<rparr>"

section \<open>Notions the properties are stated with\<close>

text \<open>An entity lies in the plane \<open>z = 0\<close>: its elevation and the third coordinate of its
  start and end, where it has them, are 0.\<close>

definition flat :: "entity \<Rightarrow> bool" where
  "flat e =
     ((case dxf_elevation e of None \<Rightarrow> True | Some h \<Rightarrow> h = 0) \<and>
      (case dxf_start e of None \<Rightarrow> True | Some (x, y, z) \<Rightarrow> z = 0) \<and>
      (case dxf_end e of None \<Rightarrow> True | Some (x, y, z) \<Rightarrow> z = 0))"

text \<open>No coordinate of the entity leaves the plane \<open>z = 0\<close>: it is flat and the third
  coordinate of its center, where it has one, is 0 as well.\<close>

definition no_z :: "entity \<Rightarrow> bool" where
  "no_z e = (flat e \<and> (case dxf_center e of None \<Rightarrow> True | Some (x, y, z) \<Rightarrow> z = 0))"

text \<open>An arc whose center lies at height 7.\<close>

definition high_arc :: entity where
  "high_arc = (arc_entity (1, 1) 2 0 90)\<lparr>dxf_center := Some (1, 1, 7)\<rparr>"

text \<open>A drawing with a line above the plane, a point and an arc.\<close>

definition sample_drawing :: modelspace where
  "sample_drawing =
     [line_entity (0, 0) (1, 2) \<lparr>dxf_start := Some (0, 0, 7), dxf_elevation := Some 3\<rparr>,
      \<lparr>dxftype = ''POINT'', dxf_elevation = None, dxf_start = None, dxf_end = None,
       dxf_center = None, dxf_radius = None, dxf_start_angle = None, dxf_end_angle = None,
       get_points = []\<rparr>,
      arc_entity (1, 1) 2 0 90]"

text \<open>The axis-parallel square with lower left corner \<open>(x, y)\<close> and side \<open>s\<close>, counter-clockwise
  from that corner, and what \<^verbatim>\<open>main\<close> makes of it for side 20 and radius 5 when the rounded
  corner is \<open>(X, Y)\<close>, in the order of emission.\<close>

definition square :: "real \<Rightarrow> real \<Rightarrow> real \<Rightarrow> point list" where
  "square x y s = [(x, y), (x + s, y), (x + s, y + s), (x, y + s)]"

definition rounded_square :: "real \<Rightarrow> real \<Rightarrow> entity list" where
  "rounded_square X Y =
     [arc_entity (X + 5, Y + 5) 5 180 (- 90),
      arc_entity (X + 15, Y + 5) 5 270 0,
      line_entity (X + 5, Y) (X + 15, Y),
      arc_entity (X + 15, Y + 15) 5 0 90,
      line_entity (X + 20, Y + 5) (X + 20, Y + 15),
      arc_entity (X + 5, Y + 15) 5 90 (- 180),
      line_entity (X + 15, Y + 20) (X + 5, Y + 20),
      line_entity (X, Y + 15) (X, Y + 5)]"





definition pt :: "real \<Rightarrow> real \<Rightarrow> int \<times> int \<Rightarrow> int \<times> int \<Rightarrow> real \<Rightarrow> real \<Rightarrow> point" where
  "pt X Y e f a b =
     (X + a * of_int (fst e) + b * of_int (fst f), Y + a * of_int (snd e) + b * of_int (snd f))"


definition is_type :: "string \<Rightarrow> entity \<Rightarrow> bool" where
  "is_type t e = (dxftype e = t)"

text \<open>The length of a line entity, from its start to its end.\<close>

definition line_length :: "entity \<Rightarrow> real" where
  "line_length e =
     (case (dxf_start e, dxf_end e) of
        (Some (x1, y1, z1), Some (x2, y2, z2)) \<Rightarrow> distance (x1, y1) (x2, y2)
      | _ \<Rightarrow> 0)"

text \<open>Plane geometry: the vector from \<open>p\<close> to \<open>q\<close>, the cross and dot products, the length
  of a vector and its polar angle as \<^verbatim>\<open>add_fillet\<close> takes it.\<close>

definition vec :: "point \<Rightarrow> point \<Rightarrow> point" where
  "vec p q = (fst q - fst p, snd q - snd p)"

definition cross :: "point \<Rightarrow> point \<Rightarrow> real" where
  "cross v w = fst v * snd w - snd v * fst w"

definition dot :: "point \<Rightarrow> point \<Rightarrow> real" where
  "dot v w = fst v * fst w + snd v * snd w"

definition len :: "point \<Rightarrow> real" where
  "len v = sqrt ((fst v)\<^sup>2 + (snd v)\<^sup>2)"

definition angle_of :: "point \<Rightarrow> real" where
  "angle_of v = atan2 (snd v) (fst v)"

text \<open>The distance from \<open>q\<close> to the line through \<open>a\<close> and \<open>b\<close>; the point of the ray from
  \<open>p\<close> through \<open>q\<close> at distance \<open>k\<close> from \<open>p\<close>; two points within \<open>tol\<close> of each other in
  both coordinates; a point of the segment from \<open>a\<close> to \<open>b\<close>.\<close>

definition dist_to_line :: "point \<Rightarrow> point \<Rightarrow> point \<Rightarrow> real" where
  "dist_to_line q a b = \<bar>cross (vec a b) (vec a q)\<bar> / len (vec a b)"

definition point_on_ray :: "point \<Rightarrow> point \<Rightarrow> real \<Rightarrow> point" where
  "point_on_ray p q k =
     (fst p + k * (fst q - fst p) / len (vec p q), snd p + k * (snd q - snd p) / len (vec p q))"

definition near :: "real \<Rightarrow> point \<Rightarrow> point \<Rightarrow> bool" where
  "near tol a b = (\<bar>fst a - fst b\<bar> \<le> tol \<and> \<bar>snd a - snd b\<bar> \<le> tol)"

definition on_segment :: "point \<Rightarrow> point \<Rightarrow> point \<Rightarrow> bool" where
  "on_segment q a b =
     (cross (vec a b) (vec a q) = 0 \<and> 0 \<le> dot (vec a b) (vec a q) \<and>
      dot (vec a b) (vec a q) \<le> dot (vec a b) (vec a b))"

text \<open>The distance from the vertex \<open>p1\<close> to the points where a circle of radius \<open>r\<close>
  touches both edges: \<open>r / tan (\<theta> / 2)\<close> for the angle \<open>\<theta>\<close> between the edges, written
  with the products of the edge vectors.\<close>

definition tangent_offset :: "point \<Rightarrow> point \<Rightarrow> point \<Rightarrow> real \<Rightarrow> real" where
  "tangent_offset p0 p1 p2 r =
     r * (len (vec p1 p0) * len (vec p1 p2) + dot (vec p1 p0) (vec p1 p2))
       / \<bar>cross (vec p1 p0) (vec p1 p2)\<bar>"

text \<open>The variables of the loop in front of the third corner of a square of side \<open>s\<close>
  rebuilt with radius 5, on an empty modelspace.\<close>

definition before_corner :: "real \<Rightarrow> rebuild" where
  "before_corner s =
     \<lparr>space = [], memory = (s, 5), first = (0, 5), nb_lines = 1\<rparr>"

section \<open>Rounding and distances\<close>

lemma py_round_of_int: "py_round (of_int k) = k"
  by (simp add: py_round_def)

lemma round3_grid: "round3 (of_int k / 1000) = of_int k / 1000"
  by (simp add: round3_def py_round_of_int)

lemma round3_0: "round3 0 = 0"
  using round3_grid [of 0] by simp

lemma round3_1: "round3 1 = 1" using round3_grid [of 1000] by simp

lemma round3_3: "round3 3 = 3" using round3_grid [of 3000] by simp

lemma round3_5: "round3 5 = 5" using round3_grid [of 5000] by simp

lemma round3_6: "round3 6 = 6" using round3_grid [of 6000] by simp

lemma round3_10: "round3 10 = 10" using round3_grid [of 10000] by simp

lemma round3_20: "round3 20 = 20" using round3_grid [of 20000] by simp

lemma round3_small: "round3 (1 / 2500) = 0"
  by (simp add: round3_def py_round_def Let_def)

lemma py_round_add_even:
  assumes "even n"
  shows "py_round (x + of_int n) = py_round x + n"
  using assms by (simp add: py_round_def Let_def)

lemma round3_add_int: "round3 (x + of_int m) = round3 x + of_int m"
proof -
  have "(x + of_int m) * 1000 = x * 1000 + of_int (m * 1000)"
    by (simp add: algebra_simps)
  then have "py_round ((x + of_int m) * 1000) = py_round (x * 1000) + m * 1000"
    using py_round_add_even [of "m * 1000" "x * 1000"] by simp
  then show ?thesis by (simp add: round3_def add_divide_distrib)
qed

lemma round3_add_numeral: "round3 (x + numeral n) = round3 x + numeral n"
  using round3_add_int [of x "numeral n"] by simp

lemma round3_numeral_add: "round3 (numeral n + x) = numeral n + round3 x"
  using round3_add_numeral [of x n] by (simp add: add.commute)

lemma round3_diff_numeral: "round3 (x - numeral n) = round3 x - numeral n"
  using round3_add_int [of x "- numeral n"] by simp

lemma round3_idem: "round3 (round3 x) = round3 x"
  unfolding round3_def [of x] by (rule round3_grid)

lemmas round3_simps = round3_add_numeral round3_numeral_add round3_diff_numeral round3_idem

lemma distance_nonneg: "0 \<le> distance p q"
  by (simp add: distance_def)

lemma distance_self: "distance p p = 0"
  by (simp add: distance_def)

lemma distance_horizontal: "distance (x1, y) (x2, y) = \<bar>x2 - x1\<bar>"
  by (simp add: distance_def)

lemma distance_vertical: "distance (x, y1) (x, y2) = \<bar>y2 - y1\<bar>"
  by (simp add: distance_def)

lemma upt_2: "[0..<2] = [0, 1]"
  by (simp add: upt_rec)

lemma upt_3: "[0..<3] = [0, 1, 2]"
  by (simp add: upt_rec)

lemma upt_4: "[0..<4] = [0, 1, 2, 3]"
  by (simp add: upt_rec)

section \<open>The sanitizer leaves a flat drawing without points\<close>

text \<open>
  Deleting the queried entities one by one removes exactly the entities of the queried
  type, so \<open>checks\<close> is a map followed by a filter.
\<close>

lemma polyline_sel: "dxftype (polyline ps) = ''LWPOLYLINE''" "get_points (polyline ps) = ps"
  by (simp_all add: polyline_def)

lemma line_radius: "dxf_radius (line_entity a b) = None"
  by (simp add: line_entity_def)

lemma delete_queried:
  "\<forall>e \<in> set pre. \<not> P e \<Longrightarrow>
   foldl delete_entity (pre @ xs) (filter P xs) = pre @ filter (\<lambda>e. \<not> P e) xs"
proof (induction xs arbitrary: pre)
  case Nil
  then show ?case by simp
next
  case (Cons x xs)
  show ?case
  proof (cases "P x")
    case True
    with Cons.prems have "x \<notin> set pre" by blast
    then have "remove1 x (pre @ x # xs) = pre @ xs"
      by (simp add: remove1_append)
    with True Cons.IH [OF Cons.prems] show ?thesis
      by (simp add: delete_entity_def)
  next
    case False
    with Cons.prems have "\<forall>e \<in> set (pre @ [x]). \<not> P e" by simp
    from Cons.IH [OF this] False show ?thesis by simp
  qed
qed

lemma checks_eq: "checks ms = filter (\<lambda>e. dxftype e \<noteq> ''POINT'') (map flatten ms)"
  using delete_queried [of "[]" "\<lambda>e. dxftype e \<in> set [''POINT'']" "map flatten ms"]
  by (simp add: checks_def query_def Let_def)

lemma flat_flatten: "flat (flatten e)"
  by (simp add: flat_def flatten_def split: option.splits prod.splits)

lemma flatten_keeps: "dxftype (flatten e) = dxftype e" "dxf_center (flatten e) = dxf_center e"
  by (simp_all add: flatten_def)

text \<open>
  C9, as amended: after \<^verbatim>\<open>checks\<close>, every entity of the modelspace is flat (its elevation
  and the Z components of its start and end are zero wherever it has these attributes),
  and none is a POINT; the centers of the entities that remain are the ones they had
  before, third coordinate included.
\<close>

theorem checks_flat_no_points:
  "(\<forall>e \<in> set (checks ms). flat e \<and> dxftype e \<noteq> ''POINT'') \<and>
   map dxf_center (checks ms) = map dxf_center (filter (\<lambda>e. dxftype e \<noteq> ''POINT'') ms)"
  by (auto simp: checks_eq flat_flatten filter_map o_def flatten_keeps)

theorem checks_flat_no_points_witness:
  "checks sample_drawing = [line_entity (0, 0) (1, 2) \<lparr>dxf_elevation := Some 0\<rparr>, arc_entity (1, 1) 2 0 90]
   \<and> list_all (\<lambda>e. flat e \<and> dxftype e \<noteq> ''POINT'') (checks sample_drawing)
   \<and> map dxf_center (checks sample_drawing) = [None, Some (1, 1, 0)]"
  using checks_flat_no_points [of sample_drawing]
  by (simp add: list_all_iff checks_eq sample_drawing_def flatten_def line_entity_def arc_entity_def vec3_def)

text \<open>
  The claim as stated fails for a Z component other than those of \<^verbatim>\<open>start\<close> and \<^verbatim>\<open>end\<close>:
  lines 62 to 68 write the elevation, the start and the end only, so an arc whose center
  lies at height 7 passes \<^verbatim>\<open>checks\<close>, and the whole of \<^verbatim>\<open>main\<close>, unchanged, and the
  drawing that is saved has an entity with a non-zero Z component.
\<close>

theorem arc_center_keeps_z:
  "checks [high_arc] = [high_arc] \<and> main [high_arc] 5 True = Inr ([high_arc], 0) \<and>
   dxf_center high_arc = Some (1, 1, 7) \<and> dxftype high_arc = ''ARC'' \<and>
   \<not> list_all no_z (checks [high_arc])"
  by (simp add: checks_eq flatten_def high_arc_def arc_entity_def vec3_def main_def query_def no_z_def)

section \<open>Steps of the rebuild loop\<close>

lemma vertex_step_fillet:
  assumes "triple points i = (p0, p1, p2)"
    and "fillet_radius radius skip p0 p1 p2 = r" and "r \<noteq> 0"
    and "add_fillet (space st) p0 p1 p2 r = Inr (ms, t1, t2)"
  shows "vertex_step radius skip points i st =
     Inr (if i = 0 then st\<lparr>space := ms, first := t1, memory := t2\<rparr>
          else if distance (memory st) t1 \<noteq> 0
          then st\<lparr>space := ms @ [line_entity (memory st) t1], nb_lines := nb_lines st + 1,
                  memory := t2\<rparr>
          else st\<lparr>space := ms, memory := t2\<rparr>)"
  using assms by (simp add: vertex_step_def fillet_vertex_def add_line_def)

lemma vertex_step_pass:
  assumes "triple points i = (p0, p1, p2)"
    and "fillet_radius radius skip p0 p1 p2 = 0"
  shows "vertex_step radius skip points i st =
     Inr (if i = 0 then st\<lparr>memory := p1\<rparr>
          else st\<lparr>space := space st @ [line_entity (memory st) p1], memory := p1\<rparr>)"
  using assms by (simp add: vertex_step_def pass_vertex_def add_line_def)

lemma rebuild_contour_loop:
  assumes "points \<noteq> []" and "length points = k"
    and "vertex_loop radius skip points [0..<k]
           \<lparr>space = ms, memory = last points, first = hd points, nb_lines = n\<rparr> = Inr st"
  shows "rebuild_contour radius skip points (ms, n) =
     Inr (space st @ [line_entity (memory st) (first st)], nb_lines st + 1)"
  using assms by (simp add: rebuild_contour_def add_line_def)

section \<open>Empty contours\<close>

text \<open>
  C7: a contour whose vertex list is empty is not skipped: line 89 reads
  \<^verbatim>\<open>points[-1]\<close> outside the test of line 86, so \<^verbatim>\<open>main\<close> ends with an
  \<^verbatim>\<open>IndexError\<close> and nothing is saved.
\<close>

theorem empty_contour_raises:
  "main [polyline []] radius skip = Inl IndexError"
  by (simp add: main_def query_def polyline_def rebuild_contour_def)

section \<open>Right-angle corners\<close>

text \<open>
  \<^verbatim>\<open>add_fillet\<close> once the two angles, the sine and the chosen center are known, and the
  choice of the center as a comparison of squared distances.
\<close>

lemma add_fillet_angles:
  assumes "atan2 (snd p0 - snd p1) (fst p0 - fst p1) = a1"
    and "atan2 (snd p2 - snd p1) (fst p2 - fst p1) = a2"
    and "sin (\<bar>a2 - a1\<bar> / 2) = s" and "s \<noteq> 0"
    and "tangent_angles a1 a2 = (sa, ea)"
    and "choose_center p0 p1 p2 (r / s) ((a1 + a2) / 2) = c"
  shows "add_fillet ms p0 p1 p2 r =
     Inr (add_arc ms (round_point c) r (fst (arc_angles a1 a2)) (snd (arc_angles a1 a2)),
          (round3 (round3 (fst c) + r * cos sa), round3 (round3 (snd c) + r * sin sa)),
          (round3 (round3 (fst c) + r * cos ea), round3 (round3 (snd c) + r * sin ea)))"
  using assms by (simp add: add_fillet_def Let_def round_point_def split: prod.splits)

lemma choose_center_cases:
  fixes d :: real
  assumes "fst p1 + d * cos b = cx" "snd p1 + d * sin b = cy"
    and "fst p1 - d * cos b = cxb" "snd p1 - d * sin b = cyb"
    and "(fst p0 + fst p2) / 2 = mx" "(snd p0 + snd p2) / 2 = my"
  shows "choose_center p0 p1 p2 d b =
     (if (cxb - mx)\<^sup>2 + (cyb - my)\<^sup>2 < (cx - mx)\<^sup>2 + (cy - my)\<^sup>2 then (cxb, cyb) else (cx, cy))"
  using assms by (simp add: choose_center_def Let_def distance_def)

lemma cos_135: "cos (3 * pi / 4) = - (sqrt 2 / 2)"
proof -
  have "cos (pi - pi / 4) = - cos (pi / 4)" by (rule cos_pi_minus)
  moreover have "pi - pi / 4 = 3 * pi / 4" by simp
  ultimately show ?thesis by (simp add: cos_45)
qed

lemma sin_135: "sin (3 * pi / 4) = sqrt 2 / 2"
proof -
  have "sin (pi - pi / 4) = sin (pi / 4)" by (rule sin_pi_minus)
  moreover have "pi - pi / 4 = 3 * pi / 4" by simp
  ultimately show ?thesis by (simp add: sin_45)
qed

lemma cos_270: "cos (3 * pi / 2) = 0"
proof -
  have "cos (pi + pi / 2) = - cos (pi / 2)" by (rule cos_periodic_pi2)
  moreover have "pi + pi / 2 = 3 * pi / 2" by simp
  ultimately show ?thesis by simp
qed

lemma sin_270: "sin (3 * pi / 2) = - 1"
proof -
  have "sin (pi + pi / 2) = - sin (pi / 2)" by (rule sin_periodic_pi2)
  moreover have "pi + pi / 2 = 3 * pi / 2" by simp
  ultimately show ?thesis by simp
qed

text \<open>
  The four corners of a counter-clockwise axis-parallel rectangle, with legs \<open>a\<close> towards
  \<open>p0\<close> and \<open>b\<close> towards \<open>p2\<close>: the center is \<open>r\<close> away from both edges, inside the
  corner.
\<close>

lemma corner_up_right:
  assumes "0 < a" "0 < b" "0 < r"
  shows "add_fillet ms (x, y + a) (x, y) (x + b, y) r =
     Inr (add_arc ms (round3 (x + r), round3 (y + r)) r 180 (- 90),
          (round3 (round3 (x + r) - r), round3 (round3 (y + r))),
          (round3 (round3 (x + r)), round3 (round3 (y + r) - r)))"
proof -
  have a1: "atan2 (snd (x, y + a) - snd (x, y)) (fst (x, y + a) - fst (x, y)) = pi / 2"
    using assms by (simp add: atan2_def)
  have a2: "atan2 (snd (x + b, y) - snd (x, y)) (fst (x + b, y) - fst (x, y)) = 0"
    using assms by (simp add: atan2_def)
  have s: "sin (\<bar>0 - pi / 2\<bar> / 2) = sqrt 2 / 2"
    by (simp add: sin_45)
  have t: "tangent_angles (pi / 2) 0 = (pi, - (pi / 2))"
    by (simp add: tangent_angles_def norm_diff_def)
  have d: "r / (sqrt 2 / 2) = r * sqrt 2"
    by (simp add: field_simps)
  have "\<not> ((x - r - (x + b / 2))\<^sup>2 + (y - r - (y + a / 2))\<^sup>2 < (x + r - (x + b / 2))\<^sup>2 + (y + r - (y + a / 2))\<^sup>2)"
  proof -
    have "(x - r - (x + b / 2))\<^sup>2 + (y - r - (y + a / 2))\<^sup>2 - ((x + r - (x + b / 2))\<^sup>2 + (y + r - (y + a / 2))\<^sup>2) = 2 * r * (a + b)"
      by (simp add: power2_eq_square algebra_simps)
    moreover have "0 < 2 * r * (a + b)" using assms by simp
    ultimately show ?thesis by linarith
  qed
  then have c: "choose_center (x, y + a) (x, y) (x + b, y) (r / (sqrt 2 / 2)) ((pi / 2 + 0) / 2) = (x + r, y + r)"
    by (subst choose_center_cases [where cx = "x + r" and cy = "y + r" and cxb = "x - r" and cyb = "y - r" and mx = "x + b / 2" and my = "y + a / 2"])
      (simp_all add: d cos_45 sin_45)
  have ang: "arc_angles (pi / 2) 0 = (180, - 90)"
    by (simp add: arc_angles_def norm_diff_def degrees_def)
  show ?thesis
    using add_fillet_angles [OF a1 a2 s _ t c, of ms] 
    by (simp add: ang round_point_def)
qed

lemma corner_left_up:
  assumes "0 < a" "0 < b" "0 < r"
  shows "add_fillet ms (x - a, y) (x, y) (x, y + b) r =
     Inr (add_arc ms (round3 (x - r), round3 (y + r)) r 270 0,
          (round3 (round3 (x - r)), round3 (round3 (y + r) - r)),
          (round3 (round3 (x - r) + r), round3 (round3 (y + r))))"
proof -
  have a1: "atan2 (snd (x - a, y) - snd (x, y)) (fst (x - a, y) - fst (x, y)) = pi"
    using assms by (simp add: atan2_def)
  have a2: "atan2 (snd (x, y + b) - snd (x, y)) (fst (x, y + b) - fst (x, y)) = pi / 2"
    using assms by (simp add: atan2_def)
  have s: "sin (\<bar>pi / 2 - pi\<bar> / 2) = sqrt 2 / 2"
    by (simp add: sin_45)
  have t: "tangent_angles pi (pi / 2) = (3 * pi / 2, 0)"
    by (simp add: tangent_angles_def norm_diff_def)
  have d: "r / (sqrt 2 / 2) = r * sqrt 2"
    by (simp add: field_simps)
  have b: "(pi + pi / 2) / 2 = 3 * pi / 4" by simp
  have "\<not> ((x + r - (x - a / 2))\<^sup>2 + (y - r - (y + b / 2))\<^sup>2 < (x - r - (x - a / 2))\<^sup>2 + (y + r - (y + b / 2))\<^sup>2)"
  proof -
    have "(x + r - (x - a / 2))\<^sup>2 + (y - r - (y + b / 2))\<^sup>2 - ((x - r - (x - a / 2))\<^sup>2 + (y + r - (y + b / 2))\<^sup>2) = 2 * r * (a + b)"
      by (simp add: power2_eq_square algebra_simps)
    moreover have "0 < 2 * r * (a + b)" using assms by simp
    ultimately show ?thesis by linarith
  qed
  then have c: "choose_center (x - a, y) (x, y) (x, y + b) (r / (sqrt 2 / 2)) ((pi + pi / 2) / 2) = (x - r, y + r)"
    unfolding b d
    by (subst choose_center_cases [where cx = "x - r" and cy = "y + r" and cxb = "x + r" and cyb = "y - r" and mx = "x - a / 2" and my = "y + b / 2"])
      (simp_all add: cos_135 sin_135)
  have ang: "arc_angles pi (pi / 2) = (270, 0)"
    by (simp add: arc_angles_def norm_diff_def degrees_def)
  show ?thesis
    using add_fillet_angles [OF a1 a2 s _ t c, of ms] 
    by (simp add: ang round_point_def cos_270 sin_270)
qed

lemma corner_down_left:
  assumes "0 < a" "0 < b" "0 < r"
  shows "add_fillet ms (x, y - a) (x, y) (x - b, y) r =
     Inr (add_arc ms (round3 (x - r), round3 (y - r)) r 0 90,
          (round3 (round3 (x - r) + r), round3 (round3 (y - r))),
          (round3 (round3 (x - r)), round3 (round3 (y - r) + r)))"
proof -
  have a1: "atan2 (snd (x, y - a) - snd (x, y)) (fst (x, y - a) - fst (x, y)) = - (pi / 2)"
    using assms by (simp add: atan2_def)
  have a2: "atan2 (snd (x - b, y) - snd (x, y)) (fst (x - b, y) - fst (x, y)) = pi"
    using assms by (simp add: atan2_def)
  have h: "\<bar>pi - - (pi / 2)\<bar> / 2 = 3 * pi / 4" by simp
  have s: "sin (\<bar>pi - - (pi / 2)\<bar> / 2) = sqrt 2 / 2"
    unfolding h by (rule sin_135)
  have t: "tangent_angles (- (pi / 2)) pi = (0, pi / 2)"
    by (simp add: tangent_angles_def norm_diff_def)
  have d: "r / (sqrt 2 / 2) = r * sqrt 2"
    by (simp add: field_simps)
  have b: "(- (pi / 2) + pi) / 2 = pi / 4" by simp
  have "(x - r - (x - b / 2))\<^sup>2 + (y - r - (y - a / 2))\<^sup>2 < (x + r - (x - b / 2))\<^sup>2 + (y + r - (y - a / 2))\<^sup>2"
  proof -
    have "(x + r - (x - b / 2))\<^sup>2 + (y + r - (y - a / 2))\<^sup>2 - ((x - r - (x - b / 2))\<^sup>2 + (y - r - (y - a / 2))\<^sup>2) = 2 * r * (a + b)"
      by (simp add: power2_eq_square algebra_simps)
    moreover have "0 < 2 * r * (a + b)" using assms by simp
    ultimately show ?thesis by linarith
  qed
  then have c: "choose_center (x, y - a) (x, y) (x - b, y) (r / (sqrt 2 / 2)) ((- (pi / 2) + pi) / 2) = (x - r, y - r)"
    unfolding b d
    by (subst choose_center_cases [where cx = "x + r" and cy = "y + r" and cxb = "x - r" and cyb = "y - r" and mx = "x - b / 2" and my = "y - a / 2"])
      (simp_all add: cos_45 sin_45)
  have ang: "arc_angles (- (pi / 2)) pi = (0, 90)"
    by (simp add: arc_angles_def norm_diff_def degrees_def)
  show ?thesis
    using add_fillet_angles [OF a1 a2 s _ t c, of ms] 
    by (simp add: ang round_point_def)
qed

lemma corner_right_down:
  assumes "0 < a" "0 < b" "0 < r"
  shows "add_fillet ms (x + a, y) (x, y) (x, y - b) r =
     Inr (add_arc ms (round3 (x + r), round3 (y - r)) r 90 (- 180),
          (round3 (round3 (x + r)), round3 (round3 (y - r) + r)),
          (round3 (round3 (x + r) - r), round3 (round3 (y - r))))"
proof -
  have a1: "atan2 (snd (x + a, y) - snd (x, y)) (fst (x + a, y) - fst (x, y)) = 0"
    using assms by (simp add: atan2_def)
  have a2: "atan2 (snd (x, y - b) - snd (x, y)) (fst (x, y - b) - fst (x, y)) = - (pi / 2)"
    using assms by (simp add: atan2_def)
  have s: "sin (\<bar>- (pi / 2) - 0\<bar> / 2) = sqrt 2 / 2"
    by (simp add: sin_45)
  have t: "tangent_angles 0 (- (pi / 2)) = (pi / 2, - pi)"
    by (simp add: tangent_angles_def norm_diff_def)
  have d: "r / (sqrt 2 / 2) = r * sqrt 2"
    by (simp add: field_simps)
  have b: "(0 + - (pi / 2)) / 2 = - (pi / 4)" by simp
  have "\<not> ((x - r - (x + a / 2))\<^sup>2 + (y + r - (y - b / 2))\<^sup>2 < (x + r - (x + a / 2))\<^sup>2 + (y - r - (y - b / 2))\<^sup>2)"
  proof -
    have "(x - r - (x + a / 2))\<^sup>2 + (y + r - (y - b / 2))\<^sup>2 - ((x + r - (x + a / 2))\<^sup>2 + (y - r - (y - b / 2))\<^sup>2) = 2 * r * (a + b)"
      by (simp add: power2_eq_square algebra_simps)
    moreover have "0 < 2 * r * (a + b)" using assms by simp
    ultimately show ?thesis by linarith
  qed
  then have c: "choose_center (x + a, y) (x, y) (x, y - b) (r / (sqrt 2 / 2)) ((0 + - (pi / 2)) / 2) = (x + r, y - r)"
    unfolding b d
    by (subst choose_center_cases [where cx = "x + r" and cy = "y - r" and cxb = "x - r" and cyb = "y + r" and mx = "x + a / 2" and my = "y - b / 2"])
      (simp_all add: cos_45 sin_45)
  have ang: "arc_angles 0 (- (pi / 2)) = (90, - 180)"
    by (simp add: arc_angles_def norm_diff_def degrees_def)
  show ?thesis
    using add_fillet_angles [OF a1 a2 s _ t c, of ms] 
    by (simp add: ang round_point_def)
qed





text \<open>
  C4: \<^verbatim>\<open>add_fillet\<close> on \<open>p0 = (0, 10)\<close>, \<open>p1 = (0, 0)\<close>, \<open>p2 = (10, 0)\<close> with radius 5
  returns the tangent points \<open>(0, 5)\<close> and \<open>(5, 0)\<close>, in this order, and adds an arc of
  center \<open>(5, 5)\<close>; on real numbers the values are exact.
\<close>

theorem right_angle_corner:
  "add_fillet ms (0, 10) (0, 0) (10, 0) 5 =
     Inr (add_arc ms (5, 5) 5 180 (- 90), (0, 5), (5, 0))"
proof -
  have r5: "round3 5 = 5" using round3_grid [of 5000] by simp
  have "add_fillet ms (0, 0 + 10) (0, 0) (0 + 10, 0) 5 =
     Inr (add_arc ms (round3 (0 + 5), round3 (0 + 5)) 5 180 (- 90),
          (round3 (round3 (0 + 5) - 5), round3 (round3 (0 + 5))),
          (round3 (round3 (0 + 5)), round3 (round3 (0 + 5) - 5)))"
    by (rule corner_up_right) simp_all
  then show ?thesis by (simp add: r5 round3_0)
qed

section \<open>The square of side 20 with radius 5\<close>

lemma square_corner0:
  assumes "round3 X = X" "round3 Y = Y"
  shows "add_fillet ms (X, Y + 20) (X, Y) (X + 20, Y) 5 =
     Inr (ms @ [arc_entity (X + 5, Y + 5) 5 180 (- 90)], (X, Y + 5), (X + 5, Y))"
  using corner_up_right [of 20 20 5 ms X Y] assms
  by (simp add: round3_simps add_arc_def add.commute)

lemma square_corner1:
  assumes "round3 X = X" "round3 Y = Y"
  shows "add_fillet ms (X, Y) (X + 20, Y) (X + 20, Y + 20) 5 =
     Inr (ms @ [arc_entity (X + 15, Y + 5) 5 270 0], (X + 15, Y), (X + 20, Y + 5))"
  using corner_left_up [of 20 20 5 ms "X + 20" Y] assms
  by (simp add: round3_simps add_arc_def add.commute)

lemma square_corner2:
  assumes "round3 X = X" "round3 Y = Y"
  shows "add_fillet ms (X + 20, Y) (X + 20, Y + 20) (X, Y + 20) 5 =
     Inr (ms @ [arc_entity (X + 15, Y + 15) 5 0 90], (X + 20, Y + 15), (X + 15, Y + 20))"
  using corner_down_left [of 20 20 5 ms "X + 20" "Y + 20"] assms
  by (simp add: round3_simps add_arc_def add.commute)

lemma square_corner3:
  assumes "round3 X = X" "round3 Y = Y"
  shows "add_fillet ms (X + 20, Y + 20) (X, Y + 20) (X, Y) 5 =
     Inr (ms @ [arc_entity (X + 5, Y + 15) 5 90 (- 180)], (X + 5, Y + 20), (X, Y + 15))"
  using corner_right_down [of 20 20 5 ms X "Y + 20"] assms
  by (simp add: round3_simps add_arc_def add.commute)

lemma square_loop:
  fixes x y :: real
  defines "X \<equiv> round3 x" and "Y \<equiv> round3 y"
  shows "vertex_loop 5 skip (square x y 20) [0..<4]
           \<lparr>space = ms, memory = m0, first = f0, nb_lines = 0\<rparr> =
         Inr \<lparr>space = ms @ butlast (rounded_square X Y), memory = (X, Y + 15),
              first = (X, Y + 5), nb_lines = 3\<rparr>"
proof -
  have r: "round3 X = X" "round3 Y = Y" by (simp_all add: X_def Y_def round3_idem)
  let ?pts = "square x y 20"
  have t0: "triple ?pts 0 = ((X, Y + 20), (X, Y), (X + 20, Y))"
    and t1: "triple ?pts 1 = ((X, Y), (X + 20, Y), (X + 20, Y + 20))"
    and t2: "triple ?pts 2 = ((X + 20, Y), (X + 20, Y + 20), (X, Y + 20))"
    and t3: "triple ?pts 3 = ((X + 20, Y + 20), (X, Y + 20), (X, Y))"
    by (simp_all add: triple_def square_def round_point_def round3_simps X_def Y_def)
  have r0: "fillet_radius 5 skip (X, Y + 20) (X, Y) (X + 20, Y) = 5"
    and r1: "fillet_radius 5 skip (X, Y) (X + 20, Y) (X + 20, Y + 20) = 5"
    and r2: "fillet_radius 5 skip (X + 20, Y) (X + 20, Y + 20) (X, Y + 20) = 5"
    and r3: "fillet_radius 5 skip (X + 20, Y + 20) (X, Y + 20) (X, Y) = 5"
    by (simp_all add: fillet_radius_def distance_horizontal distance_vertical)
  let ?s0 = "\<lparr>space = ms, memory = m0, first = f0, nb_lines = 0\<rparr>"
  let ?s1 = "\<lparr>space = ms @ [arc_entity (X + 5, Y + 5) 5 180 (- 90)], memory = (X + 5, Y),
               first = (X, Y + 5), nb_lines = 0\<rparr>"
  let ?s2 = "\<lparr>space = ms @ [arc_entity (X + 5, Y + 5) 5 180 (- 90),
                 arc_entity (X + 15, Y + 5) 5 270 0, line_entity (X + 5, Y) (X + 15, Y)],
               memory = (X + 20, Y + 5), first = (X, Y + 5), nb_lines = 1\<rparr>"
  let ?s3 = "\<lparr>space = ms @ [arc_entity (X + 5, Y + 5) 5 180 (- 90),
                 arc_entity (X + 15, Y + 5) 5 270 0, line_entity (X + 5, Y) (X + 15, Y),
                 arc_entity (X + 15, Y + 15) 5 0 90, line_entity (X + 20, Y + 5) (X + 20, Y + 15)],
               memory = (X + 15, Y + 20), first = (X, Y + 5), nb_lines = 2\<rparr>"
  let ?s4 = "\<lparr>space = ms @ butlast (rounded_square X Y), memory = (X, Y + 15),
               first = (X, Y + 5), nb_lines = 3\<rparr>"
  have s1: "vertex_step 5 skip ?pts 0 ?s0 = Inr ?s1"
    using vertex_step_fillet [OF t0 r0 _ square_corner0 [OF r], of ?s0] by simp
  have s2: "vertex_step 5 skip ?pts 1 ?s1 = Inr ?s2"
    using vertex_step_fillet [OF t1 r1 _ square_corner1 [OF r], of ?s1]
    by (simp add: distance_horizontal)
  have s3: "vertex_step 5 skip ?pts 2 ?s2 = Inr ?s3"
    using vertex_step_fillet [OF t2 r2 _ square_corner2 [OF r], of ?s2]
    by (simp add: distance_vertical)
  have s4: "vertex_step 5 skip ?pts 3 ?s3 = Inr ?s4"
    using vertex_step_fillet [OF t3 r3 _ square_corner3 [OF r], of ?s3]
    by (simp add: distance_horizontal rounded_square_def)
  show ?thesis
    by (simp only: upt_4 vertex_loop.simps s1 s2 s3 s4 sum.case)
qed

lemma square_contour:
  "rebuild_contour 5 skip (square x y 20) (ms, 0) =
     Inr (ms @ rounded_square (round3 x) (round3 y), 4)"
proof -
  have "length (square x y 20) = 4" "square x y 20 \<noteq> []" by (simp_all add: square_def)
  then show ?thesis
    by (simp add: rebuild_contour_def square_loop add_line_def) (simp add: rounded_square_def)
qed

lemma checks_rounded_square: "checks (rounded_square X Y) = rounded_square X Y"
  by (simp add: checks_eq rounded_square_def flatten_def arc_entity_def line_entity_def vec3_def)

text \<open>The rebuilt square with its arc angles, for the counter-clockwise square that
  starts at its lower left corner.\<close>

lemma square_ccw_rebuilt:
  "main [polyline (square x y 20)] 5 skip = Inr (rounded_square (round3 x) (round3 y), 4) \<and>
   length (filter (is_type ''ARC'') (rounded_square (round3 x) (round3 y))) = 4 \<and>
   length (filter (is_type ''LINE'') (rounded_square (round3 x) (round3 y))) = 4 \<and>
   map line_length (filter (is_type ''LINE'') (rounded_square (round3 x) (round3 y))) = [10, 10, 10, 10]"
proof (intro conjI)
  show "main [polyline (square x y 20)] 5 skip = Inr (rounded_square (round3 x) (round3 y), 4)"
    by (simp add: main_def query_def polyline_sel square_contour delete_entity_def
        checks_rounded_square)
qed (simp_all add: rounded_square_def is_type_def arc_entity_def line_entity_def line_length_def
    vec3_def distance_horizontal distance_vertical)

section \<open>The axis-parallel squares of side 20 with radius 5\<close>





lemma round3_grid_add:
  assumes "round3 g = g"
  shows "round3 (g + of_int m) = g + of_int m"
  using round3_add_int [of g m] assms by simp



lemma round3_pt:
  assumes "round3 X = X" "round3 Y = Y"
  shows "round_point (pt X Y e f (of_int m) (of_int n)) = pt X Y e f (of_int m) (of_int n)"
proof -
  have "round3 (X + of_int (m * fst e + n * fst f)) = X + of_int (m * fst e + n * fst f)"
    "round3 (Y + of_int (m * snd e + n * snd f)) = Y + of_int (m * snd e + n * snd f)"
    by (rule round3_grid_add [OF assms(1)], rule round3_grid_add [OF assms(2)])
  then show ?thesis
    by (simp add: round_point_def pt_def add.assoc)
qed

lemma round3_pt_numeral:
  assumes "round3 X = X" "round3 Y = Y"
  shows "round_point (pt X Y e f (numeral m) (numeral n)) = pt X Y e f (numeral m) (numeral n)"
    and "round_point (pt X Y e f 0 (numeral n)) = pt X Y e f 0 (numeral n)"
    and "round_point (pt X Y e f (numeral m) 0) = pt X Y e f (numeral m) 0"
    and "round_point (pt X Y e f 0 0) = pt X Y e f 0 0"
  using round3_pt [OF assms, of e f "numeral m" "numeral n"]
    round3_pt [OF assms, of e f 0 "numeral n"]
    round3_pt [OF assms, of e f "numeral m" 0]
    round3_pt [OF assms, of e f 0 0]
  by simp_all















section \<open>The radius used at a vertex\<close>

text \<open>
  C3, as amended: when both rounded adjacent edges have length 6 and the radius is 5,
  \<^verbatim>\<open>skip=False\<close> calls the fillet with radius 3 and \<^verbatim>\<open>skip=True\<close> takes the branch
  without arc, which adds the line from the current position to the vertex (no line at
  index 0). For a positive radius, the radius used is the configured one exactly when
  both edges are longer than twice the radius under \<^verbatim>\<open>skip=True\<close>, and exactly when
  both edges are at least twice the radius under \<^verbatim>\<open>skip=False\<close>.
\<close>

theorem radius_choice:
  "(distance p0 p1 = 6 \<and> distance p1 p2 = 6 \<longrightarrow>
      fillet_radius 5 False p0 p1 p2 = 3 \<and> fillet_radius 5 True p0 p1 p2 = 0 \<and>
      (triple points i = (p0, p1, p2) \<longrightarrow>
         vertex_step 5 False points i st = fillet_vertex i p0 p1 p2 3 st \<and>
         vertex_step 5 True points i st = Inr (pass_vertex i p1 st) \<and>
         space (pass_vertex i p1 st) =
           (if i = 0 then space st else space st @ [line_entity (memory st) p1]))) \<and>
   (0 < radius \<longrightarrow>
      (fillet_radius radius True p0 p1 p2 = radius \<longleftrightarrow>
         distance p0 p1 > 2 * radius \<and> distance p1 p2 > 2 * radius) \<and>
      (fillet_radius radius False p0 p1 p2 = radius \<longleftrightarrow>
         distance p0 p1 \<ge> 2 * radius \<and> distance p1 p2 \<ge> 2 * radius))"
proof (intro conjI impI)
  assume d: "distance p0 p1 = 6 \<and> distance p1 p2 = 6"
  then show a: "fillet_radius 5 False p0 p1 p2 = 3" and b: "fillet_radius 5 True p0 p1 p2 = 0"
    by (simp_all add: fillet_radius_def)
  assume t: "triple points i = (p0, p1, p2)"
  from t a show "vertex_step 5 False points i st = fillet_vertex i p0 p1 p2 3 st"
    by (simp add: vertex_step_def)
  from t b show "vertex_step 5 True points i st = Inr (pass_vertex i p1 st)"
    by (simp add: vertex_step_def)
  show "space (pass_vertex i p1 st) =
      (if i = 0 then space st else space st @ [line_entity (memory st) p1])"
    by (simp add: pass_vertex_def add_line_def)
next
  assume "0 < radius"
  then show "fillet_radius radius True p0 p1 p2 = radius \<longleftrightarrow>
      distance p0 p1 > 2 * radius \<and> distance p1 p2 > 2 * radius"
    by (auto simp: fillet_radius_def)
  show "fillet_radius radius False p0 p1 p2 = radius \<longleftrightarrow>
      distance p0 p1 \<ge> 2 * radius \<and> distance p1 p2 \<ge> 2 * radius"
    by (auto simp: fillet_radius_def min_def)
qed

theorem radius_choice_witness:
  "distance (0, 6) (0, 0) = 6 \<and> distance (0, 0) (6, 0) = 6 \<and>
   triple [(6, 0), (0, 6), (0, 0)] 2 = ((0, 6), (0, 0), (6, 0)) \<and>
   fillet_radius 5 False (0, 6) (0, 0) (6, 0) = 3 \<and>
   fillet_radius 5 True (0, 6) (0, 0) (6, 0) = 0 \<and>
   vertex_step 5 False [(6, 0), (0, 6), (0, 0)] 2
      \<lparr>space = [], memory = (0, 6), first = (0, 6), nb_lines = 0\<rparr> =
     Inr \<lparr>space = [arc_entity (3, 3) 3 180 (- 90), line_entity (0, 6) (0, 3)],
          memory = (3, 0), first = (0, 6), nb_lines = 1\<rparr> \<and>
   vertex_step 5 True [(6, 0), (0, 6), (0, 0)] 2
      \<lparr>space = [], memory = (0, 6), first = (0, 6), nb_lines = 0\<rparr> =
     Inr \<lparr>space = [line_entity (0, 6) (0, 0)], memory = (0, 0), first = (0, 6),
          nb_lines = 0\<rparr> \<and>
   (0 :: real) < 5 \<and>
   fillet_radius 5 True (0, 6) (0, 0) (6, 0) \<noteq> 5 \<and>
   fillet_radius 5 False (0, 6) (0, 0) (6, 0) \<noteq> 5"
proof -
  let ?st = "\<lparr>space = [], memory = (0, 6), first = (0, 6), nb_lines = 0\<rparr> :: rebuild"
  have d: "distance (0, 6) (0, 0) = 6 \<and> distance (0, 0) (6, 0) = 6"
    by (simp add: distance_def)
  have t: "triple [(6, 0), (0, 6), (0, 0)] 2 = ((0, 6), (0, 0), (6, 0))"
    by (simp add: triple_def round_point_def round3_0 round3_6)
  have f: "add_fillet (space ?st) (0, 6) (0, 0) (6, 0) 3 =
      Inr ([arc_entity (3, 3) 3 180 (- 90)], (0, 3), (3, 0))"
    using corner_up_right [of 6 6 3 "[]" 0 0] by (simp add: round3_3 round3_0 add_arc_def)
  have l: "distance (0, 6) (0, 3) \<noteq> 0" by (simp add: distance_def)
  have fv: "fillet_vertex 2 (0, 6) (0, 0) (6, 0) 3 ?st =
     Inr \<lparr>space = [arc_entity (3, 3) 3 180 (- 90), line_entity (0, 6) (0, 3)],
          memory = (3, 0), first = (0, 6), nb_lines = 1\<rparr>"
    using f l by (simp add: fillet_vertex_def add_line_def)
  have pv: "pass_vertex 2 (0, 0) ?st =
     \<lparr>space = [line_entity (0, 6) (0, 0)], memory = (0, 0), first = (0, 6), nb_lines = 0\<rparr>"
    by (simp add: pass_vertex_def add_line_def)
  from radius_choice [of "(0, 6)" "(0, 0)" "(6, 0)" "[(6, 0), (0, 6), (0, 0)]" 2 ?st 5] d t
  show ?thesis
    by (simp add: fv pv)
qed

text \<open>
  The claim as stated fails under \<^verbatim>\<open>skip=False\<close> for an edge of exactly twice the
  radius: the vertex \<open>(0, 0)\<close> between \<open>(0, 10)\<close> and \<open>(20, 0)\<close> gets an arc of the configured
  radius 5, though the edge of length 10 does not exceed 10.
\<close>

theorem boundary_edge_filleted:
  "vertex_step 5 False [(0, 10), (0, 0), (20, 0)] 1
      \<lparr>space = [], memory = (0, 10), first = (0, 10), nb_lines = 0\<rparr> =
     Inr \<lparr>space = [arc_entity (5, 5) 5 180 (- 90), line_entity (0, 10) (0, 5)],
          memory = (5, 0), first = (0, 10), nb_lines = 1\<rparr> \<and>
   \<not> (distance (0, 10) (0, 0) > 2 * 5 \<and> distance (0, 0) (20, 0) > 2 * 5)"
proof -
  have t: "triple [(0, 10), (0, 0), (20, 0)] 1 = ((0, 10), (0, 0), (20, 0))"
    by (simp add: triple_def round_point_def round3_0 round3_10 round3_20)
  have d: "distance (0, 10) (0, 0) = 10" "distance (0, 0) (20, 0) = 20"
    by (simp_all add: distance_def)
  have r: "fillet_radius 5 False (0, 10) (0, 0) (20, 0) = 5"
    by (simp add: fillet_radius_def d)
  let ?st = "\<lparr>space = [], memory = (0, 10), first = (0, 10), nb_lines = 0\<rparr> :: rebuild"
  have f: "add_fillet (space ?st) (0, 10) (0, 0) (20, 0) 5 =
      Inr ([arc_entity (5, 5) 5 180 (- 90)], (0, 5), (5, 0))"
    using corner_up_right [of 10 20 5 "[]" 0 0] by (simp add: round3_5 round3_0 add_arc_def)
  have "distance (0, 10) (0, 5) \<noteq> 0" by (simp add: distance_def)
  then show ?thesis
    using vertex_step_fillet [OF t r _ f] d
    by simp
qed

section \<open>No arc of radius zero\<close>

lemma add_fillet_space:
  assumes "add_fillet ms p0 p1 p2 r = Inr (ms', t)"
  shows "\<exists>a. ms' = ms @ [a] \<and> dxf_radius a = Some r"
  using assms
  by (auto simp: add_fillet_def Let_def add_arc_def arc_entity_def split: if_splits prod.splits)

lemma fillet_vertex_space:
  assumes "fillet_vertex i p0 p1 p2 r st = Inr st'" and "r \<noteq> 0"
  shows "\<exists>new. space st' = space st @ new \<and> (\<forall>e \<in> set new. dxf_radius e \<noteq> Some 0)"
proof -
  from assms(1) obtain ms t where f: "add_fillet (space st) p0 p1 p2 r = Inr (ms, t)"
    by (auto simp: fillet_vertex_def split: sum.splits)
  from add_fillet_space [OF f] obtain a where a: "ms = space st @ [a]" "dxf_radius a = Some r"
    by blast
  from assms(1) f have "space st' = ms \<or> space st' = ms @ [line_entity (memory st) (fst t)]"
    by (auto simp: fillet_vertex_def add_line_def split: if_splits)
  then show ?thesis
  proof
    assume "space st' = ms"
    with a assms(2) have "space st' = space st @ [a] \<and> (\<forall>e \<in> set [a]. dxf_radius e \<noteq> Some 0)"
      by simp
    then show ?thesis by blast
  next
    assume "space st' = ms @ [line_entity (memory st) (fst t)]"
    with a assms(2) have "space st' = space st @ [a, line_entity (memory st) (fst t)] \<and>
        (\<forall>e \<in> set [a, line_entity (memory st) (fst t)]. dxf_radius e \<noteq> Some 0)"
      by (simp add: line_radius)
    then show ?thesis by blast
  qed
qed

lemma pass_vertex_space:
  "\<exists>new. space (pass_vertex i p1 st) = space st @ new \<and> (\<forall>e \<in> set new. dxf_radius e \<noteq> Some 0)"
proof (cases "i = 0")
  case True
  then have "space (pass_vertex i p1 st) = space st @ []" by (simp add: pass_vertex_def)
  then show ?thesis by fastforce 
next
  case False
  then have "space (pass_vertex i p1 st) = space st @ [line_entity (memory st) p1]"
    by (simp add: pass_vertex_def add_line_def)
  moreover have "\<forall>e \<in> set [line_entity (memory st) p1]. dxf_radius e \<noteq> Some 0"
    by (simp add: line_radius)
  ultimately show ?thesis by blast
qed

lemma vertex_step_space:
  assumes "vertex_step radius skip points i st = Inr st'"
  shows "\<exists>new. space st' = space st @ new \<and> (\<forall>e \<in> set new. dxf_radius e \<noteq> Some 0)"
proof -
  obtain p0 p1 p2 where t: "triple points i = (p0, p1, p2)" by (cases "triple points i") auto
  show ?thesis
  proof (cases "fillet_radius radius skip p0 p1 p2 = 0")
    case True
    with assms t have "st' = pass_vertex i p1 st" by (simp add: vertex_step_def)
    then show ?thesis using pass_vertex_space by simp
  next
    case False
    with assms t have "fillet_vertex i p0 p1 p2 (fillet_radius radius skip p0 p1 p2) st = Inr st'"
      by (simp add: vertex_step_def)
    from fillet_vertex_space [OF this False] show ?thesis .
  qed
qed

lemma vertex_loop_space:
  "vertex_loop radius skip points is st = Inr st' \<Longrightarrow>
   \<exists>new. space st' = space st @ new \<and> (\<forall>e \<in> set new. dxf_radius e \<noteq> Some 0)"
proof (induction "is" arbitrary: st)
  case Nil
  then have "space st' = space st @ []" by simp
  then show ?case by fastforce
next
  case (Cons i "is")
  from Cons.prems obtain st1 where s: "vertex_step radius skip points i st = Inr st1"
    and l: "vertex_loop radius skip points is st1 = Inr st'"
    by (auto split: sum.splits)
  from vertex_step_space [OF s] obtain n1 where
    n1: "space st1 = space st @ n1" "\<forall>e \<in> set n1. dxf_radius e \<noteq> Some 0" by blast
  from Cons.IH [OF l] obtain n2 where
    n2: "space st' = space st1 @ n2" "\<forall>e \<in> set n2. dxf_radius e \<noteq> Some 0" by blast
  from n1 n2 have "space st' = space st @ (n1 @ n2) \<and> (\<forall>e \<in> set (n1 @ n2). dxf_radius e \<noteq> Some 0)"
    by auto
  then show ?case by blast
qed

lemma rebuild_contour_space:
  assumes "rebuild_contour radius skip points (ms, n) = Inr (ms', n')"
  shows "\<exists>new. ms' = ms @ new \<and> (\<forall>e \<in> set new. dxf_radius e \<noteq> Some 0)"
proof -
  from assms obtain st where
    l: "vertex_loop radius skip points [0..<length points]
          \<lparr>space = ms, memory = last points, first = hd points, nb_lines = n\<rparr> = Inr st"
    and m: "ms' = space st @ [line_entity (memory st) (first st)]"
    by (auto simp: rebuild_contour_def add_line_def split: if_splits sum.splits)
  from vertex_loop_space [OF l] obtain n1 where
    n1: "space st = ms @ n1" "\<forall>e \<in> set n1. dxf_radius e \<noteq> Some 0" by auto
  with m have "ms' = ms @ (n1 @ [line_entity (memory st) (first st)]) \<and>
      (\<forall>e \<in> set (n1 @ [line_entity (memory st) (first st)]). dxf_radius e \<noteq> Some 0)"
    by (auto simp: line_radius)
  then show ?thesis by blast
qed

lemma contours_loop_zero:
  "contours_loop radius skip es (ms, n) = Inr (ms', n') \<Longrightarrow>
   \<forall>e \<in> set ms'. dxf_radius e = Some 0 \<longrightarrow> e \<in> set ms"
proof (induction es arbitrary: ms n)
  case Nil
  then show ?case by simp
next
  case (Cons x es)
  from Cons.prems obtain ms1 n1 where
    r: "rebuild_contour radius skip (get_points x) (ms, n) = Inr (ms1, n1)"
    and l: "contours_loop radius skip es (delete_entity ms1 x, n1) = Inr (ms', n')"
    by (auto split: sum.splits)
  from rebuild_contour_space [OF r] obtain new where
    new: "ms1 = ms @ new" "\<forall>e \<in> set new. dxf_radius e \<noteq> Some 0" by blast
  have sub: "set (delete_entity ms1 x) \<subseteq> set ms1"
    by (simp add: delete_entity_def set_remove1_subset)
  show ?case
  proof (intro ballI impI)
    fix e assume e: "e \<in> set ms'" "dxf_radius e = Some 0"
    with Cons.IH [OF l] have "e \<in> set (delete_entity ms1 x)" by blast
    with sub new(1) have "e \<in> set ms \<or> e \<in> set new" by auto
    with new(2) e(2) show "e \<in> set ms" by blast
  qed
qed

lemma zero_edge_radius:
  assumes "distance p0 p1 = 0 \<or> distance p1 p2 = 0"
  shows "fillet_radius \<bar>radius\<bar> skip p0 p1 p2 = 0"
  using assms distance_nonneg [of p0 p1] distance_nonneg [of p1 p2]
  by (auto simp: fillet_radius_def min_def)

lemma main_two_equal_points:
  "main [polyline [(0, 0), (0, 0)]] 5 False =
     Inr ([line_entity (0, 0) (0, 0), line_entity (0, 0) (0, 0)], 1)"
  by (simp add: main_def query_def polyline_def contours_loop.simps rebuild_contour_def upt_2
      vertex_step_def triple_def round_point_def round3_0 fillet_radius_def distance_self
      pass_vertex_def add_line_def delete_entity_def checks_eq flatten_def line_entity_def vec3_def)

text \<open>
  C10: when an adjacent edge of the rounded triple has length zero, the radius chosen
  is 0 under either policy (\<^verbatim>\<open>main\<close> passes \<open>\<bar>radius\<bar>\<close>), and the step takes the branch
  without fillet; and every entity of radius zero in the drawing \<^verbatim>\<open>main\<close> returns is a
  flattened entity of the input, so no arc of radius zero was emitted.
\<close>

theorem no_zero_radius_arc:
  "(distance p0 p1 = 0 \<or> distance p1 p2 = 0 \<longrightarrow>
      fillet_radius \<bar>radius\<bar> skip p0 p1 p2 = 0 \<and>
      (triple points i = (p0, p1, p2) \<longrightarrow>
         vertex_step \<bar>radius\<bar> skip points i st = Inr (pass_vertex i p1 st))) \<and>
   (main ms radius skip = Inr (ms', n) \<longrightarrow>
      (\<forall>e \<in> set ms'. dxf_radius e = Some 0 \<longrightarrow> e \<in> flatten ` set ms))"
proof (intro conjI impI)
  assume z: "distance p0 p1 = 0 \<or> distance p1 p2 = 0"
  from zero_edge_radius [OF z] show r: "fillet_radius \<bar>radius\<bar> skip p0 p1 p2 = 0" .
  assume "triple points i = (p0, p1, p2)"
  with r show "vertex_step \<bar>radius\<bar> skip points i st = Inr (pass_vertex i p1 st)"
    by (simp add: vertex_step_def)
next
  assume m: "main ms radius skip = Inr (ms', n)"
  then obtain ms1 where
    l: "contours_loop \<bar>radius\<bar> skip (query [''LWPOLYLINE'', ''POLYLINE''] ms) (ms, 0) = Inr (ms1, n)"
    and c: "ms' = checks ms1"
    by (auto simp: main_def split: sum.splits)
  show "\<forall>e \<in> set ms'. dxf_radius e = Some 0 \<longrightarrow> e \<in> flatten ` set ms"
  proof (intro ballI impI)
    fix e assume e: "e \<in> set ms'" "dxf_radius e = Some 0"
    with c obtain e1 where e1: "e1 \<in> set ms1" "e = flatten e1"
      by (auto simp: checks_eq)
    with e(2) have "dxf_radius e1 = Some 0" by (simp add: flatten_def)
    with contours_loop_zero [OF l] e1(1) have "e1 \<in> set ms" by blast
    with e1(2) show "e \<in> flatten ` set ms" by blast
  qed
qed

theorem no_zero_radius_arc_witness:
  "distance (0, 0) (0, 0) = 0 \<and>
   fillet_radius \<bar>5\<bar> False (0, 0) (0, 0) (0, 0) = 0 \<and>
   triple [(0, 0), (0, 0)] 0 = ((0, 0), (0, 0), (0, 0)) \<and>
   vertex_step \<bar>5\<bar> False [(0, 0), (0, 0)] 0 (before_corner 0) =
     Inr (pass_vertex 0 (0, 0) (before_corner 0)) \<and>
   main [polyline [(0, 0), (0, 0)]] 5 False =
     Inr ([line_entity (0, 0) (0, 0), line_entity (0, 0) (0, 0)], 1) \<and>
   list_all (\<lambda>e. dxf_radius e \<noteq> Some 0) [line_entity (0, 0) (0, 0), line_entity (0, 0) (0, 0)]"
proof -
  have t: "triple [(0, 0), (0, 0)] 0 = ((0, 0), (0, 0), (0, 0))"
    by (simp add: triple_def round_point_def round3_0)
  from no_zero_radius_arc [of "(0, 0)" "(0, 0)" "(0, 0)" 5 False "[(0, 0), (0, 0)]" 0
      "before_corner 0" "[polyline [(0, 0), (0, 0)]]"
      "[line_entity (0, 0) (0, 0), line_entity (0, 0) (0, 0)]" 1]
  show ?thesis
    using t by (simp add: distance_self main_two_equal_points line_radius)
qed

section \<open>The end of the closing line is not rounded\<close>

text \<open>
  C8 fails on the code: \<open>first\<close> is the raw \<^verbatim>\<open>points[0]\<close> (line 87) and is replaced by a
  rounded tangent point only when vertex 0 is filleted (line 109). With radius 5 and
  the default \<^verbatim>\<open>skip=True\<close>, the triangle below has no filleted vertex, and its closing
  line ends at \<open>x = 0.0004\<close> (written \<open>1 / 2500\<close>), which rounding to 3 decimals changes
  to 0, while the line leaving vertex 0 starts at the rounded \<open>(0, 0)\<close>.
\<close>

theorem closing_line_not_rounded:
  "main [polyline [(1 / 2500, 0), (1, 0), (1, 1)]] 5 True =
     Inr ([line_entity (0, 0) (1, 0), line_entity (1, 0) (1, 1),
           line_entity (1, 1) (1 / 2500, 0)], 1) \<and>
   round3 (1 / 2500) \<noteq> 1 / 2500"
proof -
  let ?pts = "[(1 / 2500, 0), (1, 0), (1, 1)] :: point list"
  have t0: "triple ?pts 0 = ((1, 1), (0, 0), (1, 0))"
    and t1: "triple ?pts 1 = ((0, 0), (1, 0), (1, 1))"
    and t2: "triple ?pts 2 = ((1, 0), (1, 1), (0, 0))"
    by (simp_all add: triple_def round_point_def round3_small round3_0 round3_1)
  have d: "distance (0, 0) (1, 0) = 1" "distance (1, 0) (1, 1) = 1"
    by (simp_all add: distance_def)
  have r0: "fillet_radius 5 True (1, 1) (0, 0) (1, 0) = 0"
    and r1: "fillet_radius 5 True (0, 0) (1, 0) (1, 1) = 0"
    and r2: "fillet_radius 5 True (1, 0) (1, 1) (0, 0) = 0"
    by (simp_all add: fillet_radius_def d)
  have loop: "vertex_loop 5 True ?pts [0..<3]
       \<lparr>space = ms, memory = last ?pts, first = hd ?pts, nb_lines = 0\<rparr> =
     Inr \<lparr>space = ms @ [line_entity (0, 0) (1, 0), line_entity (1, 0) (1, 1)],
          memory = (1, 1), first = (1 / 2500, 0), nb_lines = 0\<rparr>" for ms
  proof -
    let ?s0 = "\<lparr>space = ms, memory = (1, 1), first = (1 / 2500, 0), nb_lines = 0\<rparr>"
    let ?s1 = "\<lparr>space = ms, memory = (0, 0), first = (1 / 2500, 0), nb_lines = 0\<rparr>"
    let ?s2 = "\<lparr>space = ms @ [line_entity (0, 0) (1, 0)], memory = (1, 0),
                 first = (1 / 2500, 0), nb_lines = 0\<rparr>"
    let ?s3 = "\<lparr>space = ms @ [line_entity (0, 0) (1, 0), line_entity (1, 0) (1, 1)],
                 memory = (1, 1), first = (1 / 2500, 0), nb_lines = 0\<rparr>"
    have s1: "vertex_step 5 True ?pts 0 ?s0 = Inr ?s1"
      using vertex_step_pass [OF t0 r0, of ?s0] by simp
    have s2: "vertex_step 5 True ?pts 1 ?s1 = Inr ?s2"
      using vertex_step_pass [OF t1 r1, of ?s1] by simp
    have s3: "vertex_step 5 True ?pts 2 ?s2 = Inr ?s3"
      using vertex_step_pass [OF t2 r2, of ?s2] by simp
    have "last ?pts = (1, 1)" "hd ?pts = (1 / 2500, 0)" by simp_all
    then show ?thesis
      by (simp only: upt_3 vertex_loop.simps s1 s2 s3 sum.case)
  qed
  have "rebuild_contour 5 True ?pts (ms, 0) =
      Inr (ms @ [line_entity (0, 0) (1, 0), line_entity (1, 0) (1, 1),
                 line_entity (1, 1) (1 / 2500, 0)], 1)" for ms
    using rebuild_contour_loop [OF _ _ loop, of ms] by simp
  then have "main [polyline ?pts] 5 True =
     Inr ([line_entity (0, 0) (1, 0), line_entity (1, 0) (1, 1),
           line_entity (1, 1) (1 / 2500, 0)], 1)"
    by (simp add: main_def query_def polyline_sel delete_entity_def checks_eq)
      (simp add: flatten_def line_entity_def vec3_def)
  then show ?thesis by (simp add: round3_small)
qed

section \<open>Connecting lines and the closing line\<close>

text \<open>
  C5: at a filleted vertex of index \<open>i > 0\<close> the line from the current position
  \<open>memory\<close> to the first tangent point is added exactly when their distance is not
  zero; and for a non-empty contour whose loop over the vertices completes, the closing
  line from the last position to \<open>first\<close> is added with no test of its length.
\<close>

theorem connecting_and_closing_lines:
  "(triple points i = (p0, p1, p2) \<and> fillet_radius radius skip p0 p1 p2 = r \<and> r \<noteq> 0 \<and> 0 < i \<and>
      add_fillet (space st) p0 p1 p2 r = Inr (ms, t1, t2) \<longrightarrow>
      vertex_step radius skip points i st =
        Inr (if distance (memory st) t1 \<noteq> 0
             then st\<lparr>space := ms @ [line_entity (memory st) t1], nb_lines := nb_lines st + 1,
                     memory := t2\<rparr>
             else st\<lparr>space := ms, memory := t2\<rparr>)) \<and>
   (points \<noteq> [] \<and>
      vertex_loop radius skip points [0..<length points]
        \<lparr>space = ms0, memory = last points, first = hd points, nb_lines = n0\<rparr> = Inr st1 \<longrightarrow>
      rebuild_contour radius skip points (ms0, n0) =
        Inr (space st1 @ [line_entity (memory st1) (first st1)], nb_lines st1 + 1))"
proof (intro conjI impI)
  assume a: "triple points i = (p0, p1, p2) \<and> fillet_radius radius skip p0 p1 p2 = r \<and> r \<noteq> 0 \<and>
      0 < i \<and> add_fillet (space st) p0 p1 p2 r = Inr (ms, t1, t2)"
  then have "vertex_step radius skip points i st =
     Inr (if i = 0 then st\<lparr>space := ms, first := t1, memory := t2\<rparr>
          else if distance (memory st) t1 \<noteq> 0
          then st\<lparr>space := ms @ [line_entity (memory st) t1], nb_lines := nb_lines st + 1,
                  memory := t2\<rparr>
          else st\<lparr>space := ms, memory := t2\<rparr>)"
    using vertex_step_fillet [of points i p0 p1 p2 radius skip r st ms t1 t2] by simp
  with a show "vertex_step radius skip points i st =
        Inr (if distance (memory st) t1 \<noteq> 0
             then st\<lparr>space := ms @ [line_entity (memory st) t1], nb_lines := nb_lines st + 1,
                     memory := t2\<rparr>
             else st\<lparr>space := ms, memory := t2\<rparr>)"
    by simp
next
  assume "points \<noteq> [] \<and>
      vertex_loop radius skip points [0..<length points]
        \<lparr>space = ms0, memory = last points, first = hd points, nb_lines = n0\<rparr> = Inr st1"
  then show "rebuild_contour radius skip points (ms0, n0) =
        Inr (space st1 @ [line_entity (memory st1) (first st1)], nb_lines st1 + 1)"
    by (intro rebuild_contour_loop [where k = "length points"]) simp_all
qed

theorem connecting_and_closing_lines_witness:
  "triple (square 0 0 20) 2 = ((20, 0), (20, 20), (0, 20)) \<and>
   fillet_radius 5 True (20, 0) (20, 20) (0, 20) = 5 \<and> (5 :: real) \<noteq> 0 \<and> (0 :: nat) < 2 \<and>
   add_fillet (space (before_corner 20)) (20, 0) (20, 20) (0, 20) 5 =
     Inr ([arc_entity (15, 15) 5 0 90], (20, 15), (15, 20)) \<and>
   distance (memory (before_corner 20)) (20, 15) \<noteq> 0 \<and>
   vertex_step 5 True (square 0 0 20) 2 (before_corner 20) =
     Inr \<lparr>space = [arc_entity (15, 15) 5 0 90, line_entity (20, 5) (20, 15)],
          memory = (15, 20), first = (0, 5), nb_lines = 2\<rparr> \<and>
   triple (square 0 0 10) 2 = ((10, 0), (10, 10), (0, 10)) \<and>
   fillet_radius 5 False (10, 0) (10, 10) (0, 10) = 5 \<and>
   add_fillet (space (before_corner 10)) (10, 0) (10, 10) (0, 10) 5 =
     Inr ([arc_entity (5, 5) 5 0 90], (10, 5), (5, 10)) \<and>
   distance (memory (before_corner 10)) (10, 5) = 0 \<and>
   vertex_step 5 False (square 0 0 10) 2 (before_corner 10) =
     Inr \<lparr>space = [arc_entity (5, 5) 5 0 90], memory = (5, 10), first = (0, 5), nb_lines = 1\<rparr> \<and>
   [(0, 0)] \<noteq> ([] :: point list) \<and>
   vertex_loop 5 True [(0, 0)] [0..<length [(0 :: real, 0 :: real)]]
     \<lparr>space = [], memory = last [(0, 0)], first = hd [(0, 0)], nb_lines = 0\<rparr> =
     Inr \<lparr>space = [], memory = (0, 0), first = (0, 0), nb_lines = 0\<rparr> \<and>
   rebuild_contour 5 True [(0, 0)] ([], 0) = Inr ([line_entity (0, 0) (0, 0)], 1) \<and>
   line_length (line_entity (0, 0) (0, 0)) = 0"
proof -
  have t20: "triple (square 0 0 20) 2 = ((20, 0), (20, 20), (0, 20))"
    by (simp add: triple_def square_def round_point_def round3_0 round3_20)
  have r20: "fillet_radius 5 True (20, 0) (20, 20) (0, 20) = 5"
    by (simp add: fillet_radius_def distance_horizontal distance_vertical)
  have f20: "add_fillet (space (before_corner 20)) (20, 0) (20, 20) (0, 20) 5 =
     Inr ([arc_entity (15, 15) 5 0 90], (20, 15), (15, 20))"
    using square_corner2 [of 0 0 "[]"] by (simp add: round3_0 before_corner_def)
  have t10: "triple (square 0 0 10) 2 = ((10, 0), (10, 10), (0, 10))"
    by (simp add: triple_def square_def round_point_def round3_0 round3_10)
  have r10: "fillet_radius 5 False (10, 0) (10, 10) (0, 10) = 5"
    by (simp add: fillet_radius_def distance_horizontal distance_vertical)
  have f10: "add_fillet (space (before_corner 10)) (10, 0) (10, 10) (0, 10) 5 =
     Inr ([arc_entity (5, 5) 5 0 90], (10, 5), (5, 10))"
    using corner_down_left [of 10 10 5 "[]" 10 10]
    by (simp add: round3_5 round3_10 add_arc_def before_corner_def)
  have t1: "triple [(0, 0)] 0 = ((0, 0), (0, 0), (0, 0))"
    by (simp add: triple_def round_point_def round3_0)
  have r1: "fillet_radius 5 True (0, 0) (0, 0) (0, 0) = 0"
    by (simp add: fillet_radius_def distance_self)
  have l1: "vertex_loop 5 True [(0, 0)] [0..<length [(0 :: real, 0 :: real)]]
     \<lparr>space = [], memory = last [(0, 0)], first = hd [(0, 0)], nb_lines = 0\<rparr> =
     Inr \<lparr>space = [], memory = (0, 0), first = (0, 0), nb_lines = 0\<rparr>"
    by (simp add: vertex_step_pass [OF t1 r1])
  have d20: "distance (memory (before_corner 20)) (20, 15) \<noteq> 0"
    and d10: "distance (memory (before_corner 10)) (10, 5) = 0"
    by (simp_all add: before_corner_def distance_vertical)
  note a = connecting_and_closing_lines [of "square 0 0 20" 2 "(20, 0)" "(20, 20)" "(0, 20)" 5
      True 5 "before_corner 20" "[arc_entity (15, 15) 5 0 90]" "(20, 15)" "(15, 20)"]
  note b = connecting_and_closing_lines [of "square 0 0 10" 2 "(10, 0)" "(10, 10)" "(0, 10)" 5
      False 5 "before_corner 10" "[arc_entity (5, 5) 5 0 90]" "(10, 5)" "(5, 10)"]
  note c = connecting_and_closing_lines [of "[(0, 0)]" _ _ _ _ 5 True _ _ _ _ _ "[]" 0
      "\<lparr>space = [], memory = (0, 0), first = (0, 0), nb_lines = 0\<rparr>"]
  from a have s20: "vertex_step 5 True (square 0 0 20) 2 (before_corner 20) =
     Inr \<lparr>space = [arc_entity (15, 15) 5 0 90, line_entity (20, 5) (20, 15)],
          memory = (15, 20), first = (0, 5), nb_lines = 2\<rparr>"
    using t20 r20 f20 d20 by (simp add: before_corner_def)
  from b have s10: "vertex_step 5 False (square 0 0 10) 2 (before_corner 10) =
     Inr \<lparr>space = [arc_entity (5, 5) 5 0 90], memory = (5, 10), first = (0, 5), nb_lines = 1\<rparr>"
    using t10 r10 f10 d10 by (simp add: before_corner_def)
  from c l1 have c': "rebuild_contour 5 True [(0, 0)] ([], 0) = Inr ([line_entity (0, 0) (0, 0)], 1)"
    by simp
  have z: "line_length (line_entity (0, 0) (0, 0)) = 0"
    by (simp add: line_length_def line_entity_def vec3_def distance_self)
  show ?thesis
    using t20 r20 f20 d20 s20 t10 r10 f10 d10 s10 l1 c' z by simp
qed

section \<open>The polar form of the edge vectors\<close>

lemma atan2_bounds: "- pi < atan2 y x \<and> atan2 y x \<le> pi"
proof -
  have b: "- (pi / 2) < arctan (y / x)" "arctan (y / x) < pi / 2"
    by (rule arctan_lbound, rule arctan_ubound)
  consider "0 < x" | "x < 0" "0 \<le> y" | "x < 0" "y < 0" | "x = 0" by linarith
  then show ?thesis
  proof cases
    case 1
    then have "atan2 y x = arctan (y / x)" by (simp add: atan2_def)
    with b pi_gt_zero show ?thesis by linarith
  next
    case 2
    then have "y / x \<le> 0" by (simp add: divide_nonneg_neg)
    then have "arctan (y / x) \<le> 0" by (simp add: arctan_le_zero_iff)
    moreover from 2 have "atan2 y x = arctan (y / x) + pi" by (simp add: atan2_def)
    ultimately show ?thesis using b pi_gt_zero by linarith
  next
    case 3
    then have "0 < y / x" by (simp add: divide_neg_neg)
    then have "0 < arctan (y / x)" by (simp add: zero_less_arctan_iff)
    moreover from 3 have "atan2 y x = arctan (y / x) - pi" by (simp add: atan2_def)
    ultimately show ?thesis using b pi_gt_zero by linarith
  next
    case 4
    then have "atan2 y x = pi / 2 \<or> atan2 y x = - (pi / 2) \<or> atan2 y x = 0"
      by (simp add: atan2_def)
    then show ?thesis using pi_gt_zero by linarith
  qed
qed

lemma sqrt_quotient:
  fixes x y :: real
  assumes "x \<noteq> 0"
  shows "sqrt (1 + (y / x)\<^sup>2) = sqrt (x\<^sup>2 + y\<^sup>2) / \<bar>x\<bar>"
proof -
  have "1 + (y / x)\<^sup>2 = (x\<^sup>2 + y\<^sup>2) / x\<^sup>2"
    using assms by (simp add: power_divide add_divide_distrib)
  then show ?thesis by (simp add: real_sqrt_divide)
qed

lemma norm_pos:
  fixes x y :: real
  assumes "x \<noteq> 0 \<or> y \<noteq> 0"
  shows "0 < sqrt (x\<^sup>2 + y\<^sup>2)"
  using assms by (auto simp: sum_power2_gt_zero_iff)

lemma cos_atan2:
  assumes "x \<noteq> 0 \<or> y \<noteq> 0"
  shows "cos (atan2 y x) = x / sqrt (x\<^sup>2 + y\<^sup>2)"
proof -
  consider "0 < x" | "x < 0" | "x = 0" by linarith
  then show ?thesis
  proof cases
    case 1
    then show ?thesis by (simp add: atan2_def cos_arctan sqrt_quotient)
  next
    case 2
    then show ?thesis by (simp add: atan2_def cos_arctan sqrt_quotient)
  next
    case 3
    with assms show ?thesis by (simp add: atan2_def)
  qed
qed

lemma sin_atan2:
  assumes "x \<noteq> 0 \<or> y \<noteq> 0"
  shows "sin (atan2 y x) = y / sqrt (x\<^sup>2 + y\<^sup>2)"
proof -
  consider "0 < x" | "x < 0" | "x = 0" "0 < y" | "x = 0" "y < 0" using assms by linarith
  then show ?thesis
  proof cases
    case 1
    then show ?thesis by (simp add: atan2_def sin_arctan sqrt_quotient)
  next
    case 2
    then show ?thesis by (simp add: atan2_def sin_arctan sqrt_quotient)
  next
    case 3
    then show ?thesis by (simp add: atan2_def)
  next
    case 4
    then show ?thesis by (simp add: atan2_def)
  qed
qed

lemma len_pos:
  assumes "v \<noteq> (0, 0)"
  shows "0 < len v"
proof -
  obtain x y where v: "v = (x, y)" by (cases v)
  with assms have "x \<noteq> 0 \<or> y \<noteq> 0" by simp
  from norm_pos [OF this] show ?thesis unfolding v len_def fst_conv snd_conv .
qed

lemma polar:
  assumes "v \<noteq> (0, 0)"
  shows "fst v = len v * cos (angle_of v)" "snd v = len v * sin (angle_of v)"
proof -
  obtain x y where v: "v = (x, y)" by (cases v)
  with assms have n: "x \<noteq> 0 \<or> y \<noteq> 0" by simp
  have "0 < sqrt (x\<^sup>2 + y\<^sup>2)" by (rule norm_pos [OF n])
  then have "sqrt (x\<^sup>2 + y\<^sup>2) \<noteq> 0" by linarith
  then show "fst v = len v * cos (angle_of v)" "snd v = len v * sin (angle_of v)"
    by (simp_all add: v len_def angle_of_def cos_atan2 [OF n] sin_atan2 [OF n])
qed

lemma cross_polar:
  assumes "v \<noteq> (0, 0)" "w \<noteq> (0, 0)"
  shows "cross v w = len v * len w * sin (angle_of w - angle_of v)"
proof -
  have "cross v w = len v * cos (angle_of v) * (len w * sin (angle_of w))
      - len v * sin (angle_of v) * (len w * cos (angle_of w))"
    unfolding cross_def using polar [OF assms(1)] polar [OF assms(2)] by simp
  then show ?thesis by (simp add: sin_diff algebra_simps)
qed

lemma dot_polar:
  assumes "v \<noteq> (0, 0)" "w \<noteq> (0, 0)"
  shows "dot v w = len v * len w * cos (angle_of w - angle_of v)"
proof -
  have "dot v w = len v * cos (angle_of v) * (len w * cos (angle_of w))
      + len v * sin (angle_of v) * (len w * sin (angle_of w))"
    unfolding dot_def using polar [OF assms(1)] polar [OF assms(2)] by simp
  then show ?thesis by (simp add: cos_diff algebra_simps)
qed

lemma angle_of_bounds: "- pi < angle_of v" "angle_of v \<le> pi"
  using atan2_bounds [of "snd v" "fst v"] by (simp_all add: angle_of_def)

lemma half_diff_bounds:
  "- pi < (angle_of w - angle_of v) / 2" "(angle_of w - angle_of v) / 2 < pi"
  using angle_of_bounds [of v] angle_of_bounds [of w] by simp_all

lemma sin_abs:
  assumes "- pi < h" "h < pi"
  shows "sin \<bar>h\<bar> = \<bar>sin h\<bar>"
proof (cases "0 \<le> h")
  case True
  with assms have "0 \<le> sin h" by (intro sin_ge_zero) simp_all
  with True show ?thesis by simp
next
  case False
  with assms have "0 \<le> sin (- h)" by (intro sin_ge_zero) simp_all
  with False show ?thesis by simp
qed

lemma divisor_eq:
  "sin (\<bar>angle_of w - angle_of v\<bar> / 2) = \<bar>sin ((angle_of w - angle_of v) / 2)\<bar>"
proof -
  have "\<bar>angle_of w - angle_of v\<bar> / 2 = \<bar>(angle_of w - angle_of v) / 2\<bar>" by simp
  then show ?thesis using sin_abs [OF half_diff_bounds, of w v] by simp
qed




lemma cos_by_half': "cos (d :: real) = 2 * (cos (d / 2))\<^sup>2 - 1"
  using cos_double_cos [of "d / 2"] by simp

lemma sin_by_half: "sin (d :: real) = 2 * sin (d / 2) * cos (d / 2)"
  using sin_double [of "d / 2"] by simp


section \<open>Division by zero in the fillet\<close>





section \<open>Tangency of the fillet\<close>

lemma py_round_error: "\<bar>of_int (py_round x) - x\<bar> \<le> 1 / 2"
proof -
  have "of_int \<lfloor>x\<rfloor> \<le> x" "x < of_int \<lfloor>x\<rfloor> + 1" by linarith+
  then show ?thesis
    by (auto simp: py_round_def Let_def)
qed

lemma round3_error: "\<bar>round3 x - x\<bar> \<le> 1 / 2000"
proof -
  define k :: real where "k = of_int (py_round (x * 1000))"
  have "\<bar>k - x * 1000\<bar> \<le> 1 / 2"
    unfolding k_def by (rule py_round_error)
  then have "\<bar>k / 1000 - x\<bar> \<le> 1 / 2000" by linarith
  then show ?thesis by (simp add: round3_def k_def)
qed

lemma norm_diff_pos_iff:
  assumes "- (2 * pi) < d" "d < 2 * pi" "sin d \<noteq> 0"
  shows "0 < norm_diff d \<longleftrightarrow> 0 < sin d"
proof -
  consider "d < - pi" | "pi < d" | "- pi \<le> d" "d \<le> 0" | "0 < d" "d \<le> pi" by linarith
  then show ?thesis
  proof cases
    case 1
    with assms have "0 < sin (d + 2 * pi)" by (intro sin_gt_zero) simp_all
    with 1 assms show ?thesis by (simp add: norm_diff_def)
  next
    case 2
    with assms have "0 < sin (2 * pi - d)" by (intro sin_gt_zero) simp_all
    moreover have "sin (2 * pi - d) = - sin d" by (simp add: sin_diff)
    ultimately have "sin d < 0" by simp
    with 2 assms pi_gt_zero show ?thesis by (simp add: norm_diff_def)
  next
    case 3
    then have "0 \<le> sin (- d)" by (intro sin_ge_zero) simp_all
    then have "sin d \<le> 0" by simp
    with 3 show ?thesis by (simp add: norm_diff_def)
  next
    case 4
    have "d \<noteq> pi" using assms(3) by auto
    with 4 have "0 < sin d" by (intro sin_gt_zero) simp_all
    with 4 show ?thesis by (simp add: norm_diff_def)
  qed
qed

lemma quarter_turn:
  "cos (a - pi / 2) = sin a" "sin (a - pi / 2) = - cos a"
  "cos (a + pi / 2) = - sin a" "sin (a + pi / 2) = cos a"
  by (simp_all add: cos_diff sin_diff cos_add sin_add)

lemma choose_algebra:
  fixes d c s ux uy :: real
  shows "(- (d * c) - ux)\<^sup>2 + (- (d * s) - uy)\<^sup>2 < (d * c - ux)\<^sup>2 + (d * s - uy)\<^sup>2 \<longleftrightarrow>
     d * (c * ux + s * uy) < 0"
proof -
  have "(d * c - ux)\<^sup>2 + (d * s - uy)\<^sup>2 - ((- (d * c) - ux)\<^sup>2 + (- (d * s) - uy)\<^sup>2) =
      - 4 * (d * (c * ux + s * uy))"
    by (simp add: power2_eq_square algebra_simps)
  then show ?thesis by linarith
qed

lemma choose_center_polar:
  assumes p0: "fst p0 - fst p1 = l1 * cos a1" "snd p0 - snd p1 = l1 * sin a1"
    and p2: "fst p2 - fst p1 = l2 * cos a2" "snd p2 - snd p1 = l2 * sin a2"
    and l: "0 < l1" "0 < l2" and d: "0 < d"
    and b: "b - a1 = h" "a2 - b = h"
  shows "choose_center p0 p1 p2 d b =
     (if cos h < 0 then (fst p1 - d * cos b, snd p1 - d * sin b)
      else (fst p1 + d * cos b, snd p1 + d * sin b))"
proof -
  define ux where "ux = (l1 * cos a1 + l2 * cos a2) / 2"
  define uy where "uy = (l1 * sin a1 + l2 * sin a2) / 2"
  have mx: "(fst p0 + fst p2) / 2 = fst p1 + ux"
    using p0(1) p2(1) by (simp add: ux_def field_simps)
  have my: "(snd p0 + snd p2) / 2 = snd p1 + uy"
    using p0(2) p2(2) by (simp add: uy_def field_simps)
  have c1: "cos b * cos a1 + sin b * sin a1 = cos h"
    using cos_diff [of b a1] b(1) by simp
  have c2: "cos b * cos a2 + sin b * sin a2 = cos h"
    using cos_diff [of a2 b] b(2) by (simp add: mult.commute)
  have "cos b * ux + sin b * uy =
      (l1 * (cos b * cos a1 + sin b * sin a1) + l2 * (cos b * cos a2 + sin b * sin a2)) / 2"
    by (simp add: ux_def uy_def algebra_simps add_divide_distrib)
  then have "cos b * ux + sin b * uy = (l1 * cos h + l2 * cos h) / 2"
    by (simp only: c1 c2)
  then have u: "cos b * ux + sin b * uy = (l1 + l2) * cos h / 2"
    by (simp add: algebra_simps)
  have "d * (cos b * ux + sin b * uy) < 0 \<longleftrightarrow> cos h < 0"
  proof -
    define X where "X = cos b * ux + sin b * uy"
    have "d * X < 0 \<longleftrightarrow> X < 0"
      using d by (auto simp: mult_less_0_iff)
    also have "X < 0 \<longleftrightarrow> (l1 + l2) * cos h < 0"
    proof -
      have "X = (l1 + l2) * cos h / 2" unfolding X_def by (rule u)
      then have "X < 0 \<longleftrightarrow> (l1 + l2) * cos h / 2 < 0" by (simp only:)
      then show ?thesis by simp
    qed
    also have "(l1 + l2) * cos h < 0 \<longleftrightarrow> cos h < 0"
      using l by (auto simp: mult_less_0_iff)
    finally show ?thesis by (simp only: X_def)
  qed
  then have cond: "(- (d * cos b) - ux)\<^sup>2 + (- (d * sin b) - uy)\<^sup>2
      < (d * cos b - ux)\<^sup>2 + (d * sin b - uy)\<^sup>2 \<longleftrightarrow> cos h < 0"
    by (simp only: choose_algebra)
  have "choose_center p0 p1 p2 d b =
     (if (fst p1 - d * cos b - (fst p1 + ux))\<^sup>2 + (snd p1 - d * sin b - (snd p1 + uy))\<^sup>2
         < (fst p1 + d * cos b - (fst p1 + ux))\<^sup>2 + (snd p1 + d * sin b - (snd p1 + uy))\<^sup>2
      then (fst p1 - d * cos b, snd p1 - d * sin b)
      else (fst p1 + d * cos b, snd p1 + d * sin b))"
    by (rule choose_center_cases) (simp_all add: mx my)
  moreover have "fst p1 - d * cos b - (fst p1 + ux) = - (d * cos b) - ux"
    "snd p1 - d * sin b - (snd p1 + uy) = - (d * sin b) - uy"
    "fst p1 + d * cos b - (fst p1 + ux) = d * cos b - ux"
    "snd p1 + d * sin b - (snd p1 + uy) = d * sin b - uy"
    by simp_all
  ultimately show ?thesis by (simp only: cond)
qed

lemma tangent_trig_start:
  fixes a h r t :: real
  assumes "sin h \<noteq> 0"
  shows "t * r / sin h * cos (a + h) + r * (t * sin a) = t * r * cos h / sin h * cos a"
    and "t * r / sin h * sin (a + h) + r * (t * - cos a) = t * r * cos h / sin h * sin a"
  using assms by (simp_all add: cos_add sin_add field_simps)

lemma tangent_trig_end:
  fixes a h r t :: real
  assumes "sin h \<noteq> 0"
  shows "t * r / sin h * cos (a - h) + r * (t * - sin a) = t * r * cos h / sin h * cos a"
    and "t * r / sin h * sin (a - h) + r * (t * cos a) = t * r * cos h / sin h * sin a"
  using assms by (simp_all add: cos_diff sin_diff field_simps)

lemma center_offset_start:
  fixes a h q :: real
  shows "cos a * (q * sin (a + h)) - sin a * (q * cos (a + h)) = q * sin h"
proof -
  have "sin (a + h) * cos a - cos (a + h) * sin a = sin h"
    using sin_diff [of "a + h" a] by simp
  then have "q * (sin (a + h) * cos a - cos (a + h) * sin a) = q * sin h" by simp
  then show ?thesis by (simp add: algebra_simps)
qed

lemma center_offset_end:
  fixes a h q :: real
  shows "cos a * (q * sin (a - h)) - sin a * (q * cos (a - h)) = - (q * sin h)"
proof -
  have "sin (a - h) * cos a - cos (a - h) * sin a = sin (- h)"
    using sin_diff [of "a - h" a] by simp
  then have "q * (sin (a - h) * cos a - cos (a - h) * sin a) = q * sin (- h)" by simp
  then show ?thesis by (simp add: algebra_simps)
qed

lemma cross_nonzero:
  assumes "cross v w \<noteq> 0"
  shows "v \<noteq> (0, 0)" "w \<noteq> (0, 0)"
    "sin ((angle_of w - angle_of v) / 2) \<noteq> 0" "cos ((angle_of w - angle_of v) / 2) \<noteq> 0"
proof -
  show v: "v \<noteq> (0, 0)" and w: "w \<noteq> (0, 0)"
    using assms by (auto simp: cross_def)
  define d where "d = angle_of w - angle_of v"
  from assms have "sin d \<noteq> 0"
    by (auto simp: cross_polar [OF v w] d_def)
  moreover have "sin d = 2 * sin (d / 2) * cos (d / 2)" by (rule sin_by_half)
  ultimately have "sin (d / 2) \<noteq> 0 \<and> cos (d / 2) \<noteq> 0" by auto
  then show "sin ((angle_of w - angle_of v) / 2) \<noteq> 0" "cos ((angle_of w - angle_of v) / 2) \<noteq> 0"
    by (simp_all add: d_def)
qed

lemma sign_cases:
  fixes S C r :: real
  assumes "S \<noteq> 0" "C \<noteq> 0"
  defines "t \<equiv> (if 0 < S * C then 1 else - 1)"
  shows "(if C < 0 then - (r / \<bar>S\<bar>) else r / \<bar>S\<bar>) = t * r / S"
    and "t * r * C / S = r * \<bar>C\<bar> / \<bar>S\<bar>"
proof -
  consider "0 < S" "0 < C" | "0 < S" "C < 0" | "S < 0" "0 < C" | "S < 0" "C < 0"
    using assms by linarith
  then show "(if C < 0 then - (r / \<bar>S\<bar>) else r / \<bar>S\<bar>) = t * r / S"
    by cases (simp_all add: t_def zero_less_mult_iff)
  consider "0 < S" "0 < C" | "0 < S" "C < 0" | "S < 0" "0 < C" | "S < 0" "C < 0"
    using assms by linarith
  then show "t * r * C / S = r * \<bar>C\<bar> / \<bar>S\<bar>"
    by cases (simp_all add: t_def zero_less_mult_iff)
qed

lemma add_fillet_exact:
  assumes nc: "cross (vec p1 p0) (vec p1 p2) \<noteq> 0" and r: "0 < r"
  defines "a1 \<equiv> angle_of (vec p1 p0)" and "a2 \<equiv> angle_of (vec p1 p2)"
  defines "k \<equiv> r * \<bar>cos ((a2 - a1) / 2)\<bar> / \<bar>sin ((a2 - a1) / 2)\<bar>"
  shows "\<exists>cx cy sa ea sA eA.
     add_fillet ms p0 p1 p2 r =
       Inr (add_arc ms (round3 cx, round3 cy) r sA eA,
            (round3 (round3 cx + r * cos sa), round3 (round3 cy + r * sin sa)),
            (round3 (round3 cx + r * cos ea), round3 (round3 cy + r * sin ea))) \<and>
     cx + r * cos sa = fst p1 + k * cos a1 \<and> cy + r * sin sa = snd p1 + k * sin a1 \<and>
     cx + r * cos ea = fst p1 + k * cos a2 \<and> cy + r * sin ea = snd p1 + k * sin a2 \<and>
     \<bar>cos a1 * (cy - snd p1) - sin a1 * (cx - fst p1)\<bar> = r \<and>
     \<bar>cos a2 * (cy - snd p1) - sin a2 * (cx - fst p1)\<bar> = r"
proof -
  define h where "h = (a2 - a1) / 2"
  define b where "b = (a1 + a2) / 2"
  define S where "S = sin h"
  define C where "C = cos h"
  define t :: real where "t = (if 0 < S * C then 1 else - 1)"
  define q where "q = t * r / S"
  define l1 where "l1 = len (vec p1 p0)"
  define l2 where "l2 = len (vec p1 p2)"
  note nz = cross_nonzero [OF nc]
  have S: "S \<noteq> 0" and C: "C \<noteq> 0"
    using nz(3,4) by (simp_all add: S_def C_def h_def a1_def a2_def)
  have l: "0 < l1" "0 < l2"
    using len_pos [OF nz(1)] len_pos [OF nz(2)] by (simp_all add: l1_def l2_def)
  have p0: "fst p0 - fst p1 = l1 * cos a1" "snd p0 - snd p1 = l1 * sin a1"
    using polar [OF nz(1)] by (simp_all add: l1_def a1_def vec_def)
  have p2: "fst p2 - fst p1 = l2 * cos a2" "snd p2 - snd p1 = l2 * sin a2"
    using polar [OF nz(2)] by (simp_all add: l2_def a2_def vec_def)
  have bh: "b - a1 = h" "a2 - b = h" "b = a1 + h" "b = a2 - h"
    by (simp_all add: b_def h_def field_simps)
  have div: "sin (\<bar>a2 - a1\<bar> / 2) = \<bar>S\<bar>"
    unfolding a1_def a2_def S_def h_def by (rule divisor_eq)
  have d: "0 < r / \<bar>S\<bar>" using r S by simp
  have t: "t = 1 \<or> t = - 1" by (simp add: t_def)
  have center: "choose_center p0 p1 p2 (r / \<bar>S\<bar>) b = (fst p1 + q * cos b, snd p1 + q * sin b)"
  proof -
    have e: "(if C < 0 then - (r / \<bar>S\<bar>) else r / \<bar>S\<bar>) = q"
      unfolding q_def t_def by (rule sign_cases(1) [OF S C])
    have "choose_center p0 p1 p2 (r / \<bar>S\<bar>) b =
       (if C < 0 then (fst p1 - r / \<bar>S\<bar> * cos b, snd p1 - r / \<bar>S\<bar> * sin b)
        else (fst p1 + r / \<bar>S\<bar> * cos b, snd p1 + r / \<bar>S\<bar> * sin b))"
      unfolding C_def by (rule choose_center_polar [OF p0 p2 l d bh(1,2)])
    also have "\<dots> = (fst p1 + (if C < 0 then - (r / \<bar>S\<bar>) else r / \<bar>S\<bar>) * cos b,
        snd p1 + (if C < 0 then - (r / \<bar>S\<bar>) else r / \<bar>S\<bar>) * sin b)"
      by simp
    finally show ?thesis by (simp only: e)
  qed
  have branch: "0 < norm_diff (a2 - a1) \<longleftrightarrow> 0 < S * C"
  proof -
    have s2: "sin (a2 - a1) = 2 * S * C"
      unfolding S_def C_def h_def by (rule sin_by_half)
    have "- (2 * pi) < a2 - a1" "a2 - a1 < 2 * pi"
      using angle_of_bounds [of "vec p1 p0"] angle_of_bounds [of "vec p1 p2"]
      by (simp_all add: a1_def a2_def)
    moreover have "sin (a2 - a1) \<noteq> 0" using S C by (simp add: s2)
    ultimately have "0 < norm_diff (a2 - a1) \<longleftrightarrow> 0 < sin (a2 - a1)"
      by (rule norm_diff_pos_iff)
    then show ?thesis by (simp add: s2 zero_less_mult_iff)
  qed
  obtain sa ea where ta: "tangent_angles a1 a2 = (sa, ea)"
    by (cases "tangent_angles a1 a2")
  have dirs: "cos sa = t * sin a1" "sin sa = t * - cos a1"
    "cos ea = t * - sin a2" "sin ea = t * cos a2"
    using ta by (auto simp: tangent_angles_def branch t_def quarter_turn split: if_splits)
  define k' where "k' = t * r * C / S"
  have "t * r * C / S = r * \<bar>C\<bar> / \<bar>S\<bar>"
    unfolding t_def by (rule sign_cases(2) [OF S C])
  then have kk: "k' = k"
    by (simp add: k'_def k_def C_def S_def h_def)
  let ?cx = "fst p1 + q * cos b" and ?cy = "snd p1 + q * sin b"
  have t1: "?cx + r * cos sa = fst p1 + k' * cos a1" "?cy + r * sin sa = snd p1 + k' * sin a1"
    using tangent_trig_start [of h t r a1] S
    by (simp_all add: dirs bh(3) q_def k'_def S_def C_def)
  have t2: "?cx + r * cos ea = fst p1 + k' * cos a2" "?cy + r * sin ea = snd p1 + k' * sin a2"
    using tangent_trig_end [of h t r a2] S
    by (simp_all add: dirs bh(4) q_def k'_def S_def C_def)
  have qS: "q * S = t * r" using S by (simp add: q_def)
  have "cos a1 * (?cy - snd p1) - sin a1 * (?cx - fst p1) = q * S"
    using center_offset_start [of a1 q h] by (simp add: bh(3) S_def)
  then have d1: "\<bar>cos a1 * (?cy - snd p1) - sin a1 * (?cx - fst p1)\<bar> = r"
    using t r by (auto simp: qS)
  have "cos a2 * (?cy - snd p1) - sin a2 * (?cx - fst p1) = - (q * S)"
    using center_offset_end [of a2 q h] by (simp add: bh(4) S_def)
  then have d2: "\<bar>cos a2 * (?cy - snd p1) - sin a2 * (?cx - fst p1)\<bar> = r"
    using t r by (auto simp: qS)
  have "add_fillet ms p0 p1 p2 r =
     Inr (add_arc ms (round_point (?cx, ?cy)) r (fst (arc_angles a1 a2)) (snd (arc_angles a1 a2)),
          (round3 (round3 (fst (?cx, ?cy)) + r * cos sa), round3 (round3 (snd (?cx, ?cy)) + r * sin sa)),
          (round3 (round3 (fst (?cx, ?cy)) + r * cos ea), round3 (round3 (snd (?cx, ?cy)) + r * sin ea)))"
  proof (rule add_fillet_angles [OF _ _ div _ ta])
    show "atan2 (snd p0 - snd p1) (fst p0 - fst p1) = a1"
      by (simp add: a1_def angle_of_def vec_def)
    show "atan2 (snd p2 - snd p1) (fst p2 - fst p1) = a2"
      by (simp add: a2_def angle_of_def vec_def)
    show "\<bar>S\<bar> \<noteq> 0" using S by simp
    show "choose_center p0 p1 p2 (r / \<bar>S\<bar>) ((a1 + a2) / 2) = (?cx, ?cy)"
      using center by (simp only: b_def)
  qed
  then have "add_fillet ms p0 p1 p2 r =
     Inr (add_arc ms (round3 ?cx, round3 ?cy) r (fst (arc_angles a1 a2)) (snd (arc_angles a1 a2)),
          (round3 (round3 ?cx + r * cos sa), round3 (round3 ?cy + r * sin sa)),
          (round3 (round3 ?cx + r * cos ea), round3 (round3 ?cy + r * sin ea)))"
    by (simp add: round_point_def)
  with t1 t2 d1 d2 kk show ?thesis by blast
qed

lemma distance_len: "distance p q = len (vec p q)"
  by (simp add: distance_def len_def vec_def)

lemma tangent_offset_polar:
  assumes nc: "cross (vec p1 p0) (vec p1 p2) \<noteq> 0"
  shows "tangent_offset p0 p1 p2 r =
     r * \<bar>cos ((angle_of (vec p1 p2) - angle_of (vec p1 p0)) / 2)\<bar>
       / \<bar>sin ((angle_of (vec p1 p2) - angle_of (vec p1 p0)) / 2)\<bar>"
proof -
  define d where "d = angle_of (vec p1 p2) - angle_of (vec p1 p0)"
  define S where "S = sin (d / 2)"
  define C where "C = cos (d / 2)"
  define L where "L = len (vec p1 p0) * len (vec p1 p2)"
  note nz = cross_nonzero [OF nc]
  have S: "S \<noteq> 0" and C: "C \<noteq> 0" using nz(3,4) by (simp_all add: S_def C_def d_def)
  have L: "0 < L" using len_pos [OF nz(1)] len_pos [OF nz(2)] by (simp add: L_def)
  have cr: "cross (vec p1 p0) (vec p1 p2) = L * (2 * S * C)"
    unfolding L_def S_def C_def d_def cross_polar [OF nz(1,2)]
    using sin_by_half [of "angle_of (vec p1 p2) - angle_of (vec p1 p0)"] by simp
  have dt: "dot (vec p1 p0) (vec p1 p2) = L * (2 * C\<^sup>2 - 1)"
    unfolding L_def S_def C_def d_def dot_polar [OF nz(1,2)]
    using cos_by_half' [of "angle_of (vec p1 p2) - angle_of (vec p1 p0)"] by simp
  have num: "L + L * (2 * C\<^sup>2 - 1) = 2 * L * (\<bar>C\<bar> * \<bar>C\<bar>)"
    by (simp add: algebra_simps power2_eq_square)
  have den: "\<bar>L * (2 * S * C)\<bar> = 2 * L * (\<bar>S\<bar> * \<bar>C\<bar>)"
    using L by (simp add: abs_mult)
  have "tangent_offset p0 p1 p2 r = r * (2 * L * (\<bar>C\<bar> * \<bar>C\<bar>)) / (2 * L * (\<bar>S\<bar> * \<bar>C\<bar>))"
    unfolding tangent_offset_def cr dt den using num by (simp add: L_def)
  also have "\<dots> = r * \<bar>C\<bar> / \<bar>S\<bar>"
    using L S C by (simp add: field_simps)
  finally show ?thesis by (simp add: C_def S_def d_def)
qed

lemma polar_pair:
  assumes "v \<noteq> (0, 0)"
  shows "v = (len v * cos (angle_of v), len v * sin (angle_of v))"
  using polar [OF assms] by (simp add: prod_eq_iff)

lemma point_on_ray_polar:
  assumes "vec p q \<noteq> (0, 0)"
  shows "point_on_ray p q k =
     (fst p + k * cos (angle_of (vec p q)), snd p + k * sin (angle_of (vec p q)))"
proof -
  define l where "l = len (vec p q)"
  define c where "c = cos (angle_of (vec p q))"
  define s where "s = sin (angle_of (vec p q))"
  have l: "l \<noteq> 0" using len_pos [OF assms] by (simp add: l_def)
  have "vec p q = (l * c, l * s)"
    unfolding l_def c_def s_def by (rule polar_pair [OF assms])
  then have "fst q - fst p = l * c" "snd q - snd p = l * s"
    by (simp_all add: vec_def)
  then have "k * (fst q - fst p) / l = k * c" "k * (snd q - snd p) / l = k * s"
    using l by simp_all
  then show ?thesis
    by (simp add: point_on_ray_def l_def c_def s_def)
qed

lemma dist_to_line_polar:
  assumes "vec a b \<noteq> (0, 0)"
  shows "dist_to_line q a b =
     \<bar>cos (angle_of (vec a b)) * (snd q - snd a) - sin (angle_of (vec a b)) * (fst q - fst a)\<bar>"
proof -
  define l where "l = len (vec a b)"
  define c where "c = cos (angle_of (vec a b))"
  define s where "s = sin (angle_of (vec a b))"
  have l: "0 < l" unfolding l_def by (rule len_pos [OF assms])
  have v: "vec a b = (l * c, l * s)"
    unfolding l_def c_def s_def by (rule polar_pair [OF assms])
  have "cross (l * c, l * s) (vec a q) = l * (c * (snd q - snd a) - s * (fst q - fst a))"
    by (simp add: cross_def vec_def algebra_simps)
  then have "\<bar>cross (vec a b) (vec a q)\<bar> = l * \<bar>c * (snd q - snd a) - s * (fst q - fst a)\<bar>"
    using l by (simp add: v abs_mult)
  then have "dist_to_line q a b = l * \<bar>c * (snd q - snd a) - s * (fst q - fst a)\<bar> / l"
    by (simp add: dist_to_line_def l_def)
  then show ?thesis
    using l by (simp add: c_def s_def)
qed

lemma rounded_twice:
  "\<bar>round3 (round3 c + x) - (c + x)\<bar> \<le> 1 / 1000"
  using round3_error [of "round3 c + x"] round3_error [of c] by linarith

lemma rounded_center_distance:
  fixes A r c s ex ey :: real
  assumes "\<bar>A\<bar> = r" "\<bar>ex\<bar> \<le> 1 / 2000" "\<bar>ey\<bar> \<le> 1 / 2000" "\<bar>c\<bar> \<le> 1" "\<bar>s\<bar> \<le> 1"
  shows "\<bar>\<bar>A + (c * ey - s * ex)\<bar> - r\<bar> \<le> 1 / 1000"
proof -
  have "\<bar>c * ey\<bar> \<le> \<bar>ey\<bar>" "\<bar>s * ex\<bar> \<le> \<bar>ex\<bar>"
    using assms(4,5) by (simp_all add: abs_mult mult_left_le_one_le)
  with assms(2,3) have "\<bar>c * ey - s * ex\<bar> \<le> 1 / 1000" by linarith
  with assms(1) show ?thesis by linarith
qed

lemma on_segment_start:
  assumes "vec p q \<noteq> (0, 0)" "0 \<le> k" "k \<le> len (vec p q)"
  shows "on_segment (point_on_ray p q k) p q"
proof -
  define l where "l = len (vec p q)"
  define a where "a = angle_of (vec p q)"
  have l: "0 < l" unfolding l_def by (rule len_pos [OF assms(1)])
  have v: "vec p q = (l * cos a, l * sin a)"
    using polar [OF assms(1)] by (simp add: l_def a_def prod_eq_iff)
  have w: "vec p (point_on_ray p q k) = (k * cos a, k * sin a)"
    by (simp add: point_on_ray_polar [OF assms(1)] vec_def a_def)
  have "l * cos a * (k * cos a) + l * sin a * (k * sin a) = l * k * (cos a * cos a + sin a * sin a)"
    by (simp only: distrib_left ac_simps)
  also have "\<dots> = l * k" by (simp only: sin_cos_squared_add3 mult_1_right)
  finally have d1: "l * cos a * (k * cos a) + l * sin a * (k * sin a) = l * k" .
  have "l * cos a * (l * cos a) + l * sin a * (l * sin a) = l * l * (cos a * cos a + sin a * sin a)"
    by (simp only: distrib_left ac_simps)
  also have "\<dots> = l * l" by (simp only: sin_cos_squared_add3 mult_1_right)
  finally have d2: "l * cos a * (l * cos a) + l * sin a * (l * sin a) = l * l" .
  have dq: "dot (l * cos a, l * sin a) (k * cos a, k * sin a) = l * k"
    unfolding dot_def fst_conv snd_conv by (rule d1)
  have dd: "dot (l * cos a, l * sin a) (l * cos a, l * sin a) = l * l"
    unfolding dot_def fst_conv snd_conv by (rule d2)
  have cr: "cross (l * cos a, l * sin a) (k * cos a, k * sin a) = 0"
    by (simp add: cross_def)
  have "0 \<le> l * k" "l * k \<le> l * l"
    using l assms(2,3) by (simp_all add: l_def [symmetric])
  then show ?thesis
    unfolding on_segment_def v w dq dd cr by simp
qed

lemma len_axis: "len (0, y) = \<bar>y\<bar>" "len (x, 0) = \<bar>x\<bar>"
  by (simp_all add: len_def)

text \<open>
  C1, as amended: for three points that are not collinear and a positive radius,
  \<^verbatim>\<open>add_fillet\<close> returns; the distance from the rounded center to the line through \<open>p1\<close>
  and \<open>p0\<close> and to the line through \<open>p1\<close> and \<open>p2\<close> differs from \<open>r\<close> by at most 0.001; and
  the first and second tangent points are within 0.001, in each coordinate, of the
  points of the rays from \<open>p1\<close> through \<open>p0\<close> and through \<open>p2\<close> at distance
  \<open>tangent_offset p0 p1 p2 r\<close> from \<open>p1\<close>. Such a point lies on its edge segment when the
  offset does not exceed the length of the edge.
\<close>

theorem fillet_is_tangent:
  assumes nc: "cross (vec p1 p0) (vec p1 p2) \<noteq> 0" and r: "0 < r"
  shows "\<exists>c sA eA t1 t2.
     add_fillet ms p0 p1 p2 r = Inr (add_arc ms c r sA eA, t1, t2) \<and>
     \<bar>dist_to_line c p1 p0 - r\<bar> \<le> 1 / 1000 \<and>
     \<bar>dist_to_line c p1 p2 - r\<bar> \<le> 1 / 1000 \<and>
     0 < tangent_offset p0 p1 p2 r \<and>
     near (1 / 1000) t1 (point_on_ray p1 p0 (tangent_offset p0 p1 p2 r)) \<and>
     near (1 / 1000) t2 (point_on_ray p1 p2 (tangent_offset p0 p1 p2 r)) \<and>
     (tangent_offset p0 p1 p2 r \<le> distance p1 p0 \<longrightarrow>
        on_segment (point_on_ray p1 p0 (tangent_offset p0 p1 p2 r)) p1 p0) \<and>
     (tangent_offset p0 p1 p2 r \<le> distance p1 p2 \<longrightarrow>
        on_segment (point_on_ray p1 p2 (tangent_offset p0 p1 p2 r)) p1 p2)"
proof -
  define a1 where "a1 = angle_of (vec p1 p0)"
  define a2 where "a2 = angle_of (vec p1 p2)"
  define k where "k = tangent_offset p0 p1 p2 r"
  note nz = cross_nonzero [OF nc]
  have k: "k = r * \<bar>cos ((a2 - a1) / 2)\<bar> / \<bar>sin ((a2 - a1) / 2)\<bar>"
    unfolding k_def a1_def a2_def by (rule tangent_offset_polar [OF nc])
  have kpos: "0 < k"
    unfolding k using r nz(3,4) by (simp add: a1_def a2_def)
  from add_fillet_exact [OF nc r, of ms, folded a1_def a2_def, folded k]
  obtain cx cy sa ea sA eA where
    f: "add_fillet ms p0 p1 p2 r =
       Inr (add_arc ms (round3 cx, round3 cy) r sA eA,
            (round3 (round3 cx + r * cos sa), round3 (round3 cy + r * sin sa)),
            (round3 (round3 cx + r * cos ea), round3 (round3 cy + r * sin ea)))"
    and t1: "cx + r * cos sa = fst p1 + k * cos a1" "cy + r * sin sa = snd p1 + k * sin a1"
    and t2: "cx + r * cos ea = fst p1 + k * cos a2" "cy + r * sin ea = snd p1 + k * sin a2"
    and d1: "\<bar>cos a1 * (cy - snd p1) - sin a1 * (cx - fst p1)\<bar> = r"
    and d2: "\<bar>cos a2 * (cy - snd p1) - sin a2 * (cx - fst p1)\<bar> = r"
    by blast
  have ray1: "point_on_ray p1 p0 k = (fst p1 + k * cos a1, snd p1 + k * sin a1)"
    unfolding a1_def by (rule point_on_ray_polar [OF nz(1)])
  have ray2: "point_on_ray p1 p2 k = (fst p1 + k * cos a2, snd p1 + k * sin a2)"
    unfolding a2_def by (rule point_on_ray_polar [OF nz(2)])
  have n1: "near (1 / 1000) (round3 (round3 cx + r * cos sa), round3 (round3 cy + r * sin sa))
      (point_on_ray p1 p0 k)"
    unfolding ray1 near_def fst_conv snd_conv t1 [symmetric]
    by (intro conjI rounded_twice)
  have n2: "near (1 / 1000) (round3 (round3 cx + r * cos ea), round3 (round3 cy + r * sin ea))
      (point_on_ray p1 p2 k)"
    unfolding ray2 near_def fst_conv snd_conv t2 [symmetric]
    by (intro conjI rounded_twice)
  have line: "\<bar>dist_to_line (round3 cx, round3 cy) p1 q - r\<bar> \<le> 1 / 1000"
    if q: "vec p1 q \<noteq> (0, 0)"
      and d: "\<bar>cos (angle_of (vec p1 q)) * (cy - snd p1) - sin (angle_of (vec p1 q)) * (cx - fst p1)\<bar> = r"
    for q
  proof -
    define c where "c = cos (angle_of (vec p1 q))"
    define s where "s = sin (angle_of (vec p1 q))"
    have "c * (round3 cy - snd p1) - s * (round3 cx - fst p1) =
        (c * (cy - snd p1) - s * (cx - fst p1)) + (c * (round3 cy - cy) - s * (round3 cx - cx))"
      by (simp add: algebra_simps)
    moreover have "\<bar>\<bar>(c * (cy - snd p1) - s * (cx - fst p1)) + (c * (round3 cy - cy) - s * (round3 cx - cx))\<bar> - r\<bar>
        \<le> 1 / 1000"
    proof (rule rounded_center_distance)
      show "\<bar>c * (cy - snd p1) - s * (cx - fst p1)\<bar> = r"
        unfolding c_def s_def by (rule d)
      show "\<bar>round3 cx - cx\<bar> \<le> 1 / 2000" "\<bar>round3 cy - cy\<bar> \<le> 1 / 2000"
        by (rule round3_error)+
      show "\<bar>c\<bar> \<le> 1" unfolding c_def by (rule abs_cos_le_one)
      show "\<bar>s\<bar> \<le> 1" unfolding s_def by (rule abs_sin_le_one)
    qed
    ultimately show ?thesis
      by (simp add: dist_to_line_polar [OF q] c_def s_def)
  qed
  have l1: "\<bar>dist_to_line (round3 cx, round3 cy) p1 p0 - r\<bar> \<le> 1 / 1000"
    by (rule line [OF nz(1) d1 [unfolded a1_def]])
  have l2: "\<bar>dist_to_line (round3 cx, round3 cy) p1 p2 - r\<bar> \<le> 1 / 1000"
    by (rule line [OF nz(2) d2 [unfolded a2_def]])
  have s1: "k \<le> distance p1 p0 \<longrightarrow> on_segment (point_on_ray p1 p0 k) p1 p0"
    using on_segment_start [OF nz(1), of k] kpos by (simp add: distance_len)
  have s2: "k \<le> distance p1 p2 \<longrightarrow> on_segment (point_on_ray p1 p2 k) p1 p2"
    using on_segment_start [OF nz(2), of k] kpos by (simp add: distance_len)
  from f l1 l2 kpos n1 n2 s1 s2 show ?thesis
    unfolding k_def by blast
qed

theorem fillet_is_tangent_witness:
  "cross (vec (0, 0) (0, 10)) (vec (0, 0) (10, 0)) \<noteq> 0 \<and> (0 :: real) < 5 \<and>
   tangent_offset (0, 10) (0, 0) (10, 0) 5 = 5 \<and>
   distance (0, 0) (0, 10) = 10 \<and> distance (0, 0) (10, 0) = 10 \<and>
   point_on_ray (0, 0) (0, 10) 5 = (0, 5) \<and> point_on_ray (0, 0) (10, 0) 5 = (5, 0) \<and>
   on_segment (0, 5) (0, 0) (0, 10) \<and> on_segment (5, 0) (0, 0) (10, 0) \<and>
   (\<exists>c sA eA t1 t2.
      add_fillet [] (0, 10) (0, 0) (10, 0) 5 = Inr (add_arc [] c 5 sA eA, t1, t2) \<and>
      \<bar>dist_to_line c (0, 0) (0, 10) - 5\<bar> \<le> 1 / 1000 \<and>
      \<bar>dist_to_line c (0, 0) (10, 0) - 5\<bar> \<le> 1 / 1000 \<and>
      near (1 / 1000) t1 (0, 5) \<and> near (1 / 1000) t2 (5, 0))"
proof -
  have c: "cross (vec (0, 0) (0, 10)) (vec (0, 0) (10, 0)) \<noteq> 0"
    by (simp add: cross_def vec_def)
  have k: "tangent_offset (0, 10) (0, 0) (10, 0) 5 = 5"
    by (simp add: tangent_offset_def cross_def dot_def vec_def len_axis)
  have d: "distance (0, 0) (0, 10) = 10" "distance (0, 0) (10, 0) = 10"
    by (simp_all add: distance_len vec_def len_axis)
  have p: "point_on_ray (0, 0) (0, 10) 5 = (0, 5)" "point_on_ray (0, 0) (10, 0) 5 = (5, 0)"
    by (simp_all add: point_on_ray_def vec_def len_axis)
  from fillet_is_tangent [OF c, of 5 "[]"] obtain c' sA eA t1 t2 where
    f: "add_fillet [] (0, 10) (0, 0) (10, 0) 5 = Inr (add_arc [] c' 5 sA eA, t1, t2)"
      "\<bar>dist_to_line c' (0, 0) (0, 10) - 5\<bar> \<le> 1 / 1000"
      "\<bar>dist_to_line c' (0, 0) (10, 0) - 5\<bar> \<le> 1 / 1000"
      "near (1 / 1000) t1 (0, 5)" "near (1 / 1000) t2 (5, 0)"
    and s: "on_segment (0, 5) (0, 0) (0, 10)" "on_segment (5, 0) (0, 0) (10, 0)"
    unfolding k d p by auto
  from f have "\<exists>c sA eA t1 t2.
      add_fillet [] (0, 10) (0, 0) (10, 0) 5 = Inr (add_arc [] c 5 sA eA, t1, t2) \<and>
      \<bar>dist_to_line c (0, 0) (0, 10) - 5\<bar> \<le> 1 / 1000 \<and>
      \<bar>dist_to_line c (0, 0) (10, 0) - 5\<bar> \<le> 1 / 1000 \<and>
      near (1 / 1000) t1 (0, 5) \<and> near (1 / 1000) t2 (5, 0)"
    by blast
  with c k d p s show ?thesis by simp
qed

text \<open>
  The claim as stated fails where the radius is large for the edges: for the corner
  \<open>(0, 1)\<close>, \<open>(0, 0)\<close>, \<open>(1, 0)\<close> and radius 5 the first tangent point is \<open>(0, 5)\<close>, and no
  point of the segment from \<open>(0, 0)\<close> to \<open>(0, 1)\<close> is within 0.001 of it.
\<close>

theorem tangent_point_off_segment:
  "cross (vec (0, 0) (0, 1)) (vec (0, 0) (1, 0)) \<noteq> 0 \<and>
   add_fillet [] (0, 1) (0, 0) (1, 0) 5 = Inr (add_arc [] (5, 5) 5 180 (- 90), (0, 5), (5, 0)) \<and>
   \<not> (\<exists>q. on_segment q (0, 0) (0, 1) \<and> near (1 / 1000) (0, 5) q)"
proof (intro conjI)
  show "cross (vec (0, 0) (0, 1)) (vec (0, 0) (1, 0)) \<noteq> 0"
    by (simp add: cross_def vec_def)
  show "add_fillet [] (0, 1) (0, 0) (1, 0) 5 = Inr (add_arc [] (5, 5) 5 180 (- 90), (0, 5), (5, 0))"
    using corner_up_right [of 1 1 5 "[]" 0 0] by (simp add: round3_5 round3_0)
  show "\<not> (\<exists>q. on_segment q (0, 0) (0, 1) \<and> near (1 / 1000) (0, 5) q)"
  proof
    assume "\<exists>q. on_segment q (0, 0) (0, 1) \<and> near (1 / 1000) (0, 5) q"
    then obtain q where s: "on_segment q (0, 0) (0, 1)" and n: "near (1 / 1000) (0, 5) q"
      by blast
    from s have "snd q \<le> 1" by (simp add: on_segment_def dot_def vec_def)
    moreover from n have "\<bar>5 - snd q\<bar> \<le> 1 / 1000" by (simp add: near_def)
    ultimately show False by linarith
  qed
qed

end
